theory Spec2Isabelle
  imports Main
begin

section \<open>Data model\<close>

text \<open>
  Errors are values. \<open>Thrown m\<close> is an exception with message \<open>m\<close> that escapes an
  external collaborator (a rejected promise); \<open>TypeError m\<close> is the JavaScript
  TypeError raised by a property read on \<open>undefined\<close>.
\<close>

datatype error = TypeError string | Thrown string


text \<open>
  An entry of \<open>models.default\<close> is a string or an object with a \<open>name\<close> field; the
  second argument of \<open>MObj\<close> stands for the object's other fields. Fetched lists
  hold the same kind of value.
\<close>

datatype model_entry = MStr string | MObj string string

type_synonym model_list = "model_entry list"
type_synonym models_config = "string \<rightharpoonup> model_list"
type_synonym model_details = "string \<rightharpoonup> string"

record models_cfg =
  fetch :: bool
  default_models :: "model_list option"
  userIdQuery :: "string option"

text \<open>
  The string fields of an endpoint are only tested for truthiness before use, so the
  empty string stands for every falsy value (absent, null, empty).
\<close>

record endpoint =
  name :: string
  baseURL :: string
  apiKey :: string
  headers :: "(string \<times> string) list option"
  directEndpoint :: bool
  models :: "models_cfg option"

record azure_config =
  modelNames :: "model_list option"
  assistants :: bool
  assistantModels :: "model_list option"

datatype custom_value = NotAnArray | CustomArray "endpoint list"

record endpoints_config =
  azureOpenAI :: "azure_config option"
  custom :: custom_value

record app_config =
  endpoints :: "endpoints_config option"

record user_t =
  user_id :: string
  role :: "string option"

text \<open>The handler is mounted behind authentication: \<open>req.user\<close> is set.\<close>

record request =
  user :: user_t
  query_includeDetails :: "string option"

record fetch_params =
  arg_name :: string
  arg_apiKey :: string
  arg_baseURL :: string
  arg_user :: string
  arg_userObject :: user_t
  arg_headers :: "(string \<times> string) list option"
  arg_direct :: bool
  arg_userIdQuery :: "string option"

text \<open>
  What a fetch promise resolves to: nothing (\<open>undefined\<close>), an array, or an object
  with a \<open>models\<close> key and a \<open>modelDetails\<close> key.
\<close>

datatype fetch_result =
  FAbsent
| FList model_list
| FDetailed "model_list option" "model_details option"

text \<open>A recorded invocation of the fetch collaborator.\<close>

datatype fetch_call = FetchModels fetch_params | FetchModelsWithDetails fetch_params

fun call_params :: "fetch_call \<Rightarrow> fetch_params" where
  "call_params (FetchModels p) = p"
| "call_params (FetchModelsWithDetails p) = p"

text \<open>What \<open>loadConfigModels\<close> and \<open>loadModels\<close> return: the bare mapping, or the
  object \<open>{ models, modelDetails }\<close>.\<close>

datatype models_result =
  PlainConfig models_config
| DetailedConfig models_config model_details

text \<open>
  The collaborators and constants that the source imports from other packages are
  parameters of the model.
\<close>

record env =
  getAppConfig :: "string option \<Rightarrow> error + app_config option"
  extractEnvVariable :: "string \<Rightarrow> string"
  normalizeEndpointName :: "string \<Rightarrow> string"
  isUserProvided :: "string \<Rightarrow> bool"
  fetchModels :: "fetch_params \<Rightarrow> error + fetch_result"
  fetchModelsWithDetails :: "fetch_params \<Rightarrow> error + fetch_result"
  loadDefaultModels :: "request \<Rightarrow> error + models_config"
  EModelEndpoint_azureOpenAI :: string
  EModelEndpoint_azureAssistants :: string
  CacheKeys_MODELS_CONFIG :: string

section \<open>loadConfigModels\<close>

subsection \<open>The eligibility filter (lines 42-49)\<close>

definition eligible :: "endpoint \<Rightarrow> bool" where
  "eligible endpoint \<longleftrightarrow>
     baseURL endpoint \<noteq> [] \<and> apiKey endpoint \<noteq> [] \<and> name endpoint \<noteq> [] \<and>
     (case models endpoint of
        None \<Rightarrow> False
      | Some m \<Rightarrow> fetch m \<or> default_models m \<noteq> None)"

subsection \<open>The loop over the eligible endpoints (lines 64-101)\<close>

text \<open>
  \<open>fetchPromisesMap\<close> is an association list in insertion order, which is the order
  of \<open>Object.keys\<close> and \<open>Object.values\<close> for keys that are not array indices (a
  key containing \<open>__\<close> never is). A promise is kept as the value it settles to.
  \<open>fetchCalls\<close> is the trace of the invocations of the fetch collaborator.
  The maps indexed by endpoint name give what a read returns after the writes: a write
  under the name \<open>__proto__\<close> sets the prototype of the object instead of an own
  entry, and a read under that name returns the value written.
\<close>

record loop_state =
  modelsConfig :: models_config
  fetchPromisesMap :: "(string \<times> (error + fetch_result)) list"
  uniqueKeyToEndpointsMap :: "string \<rightharpoonup> string list"
  endpointsMap :: "string \<rightharpoonup> endpoint"
  fetchCalls :: "fetch_call list"

fun entryName :: "model_entry \<Rightarrow> model_entry" where
  "entryName (MStr s) = MStr s"
| "entryName (MObj n r) = MStr n"

definition uniqueKey :: "env \<Rightarrow> endpoint \<Rightarrow> string" where
  "uniqueKey env endpoint =
     extractEnvVariable env (baseURL endpoint) @ ''__'' @ extractEnvVariable env (apiKey endpoint)"

definition fetchFn :: "env \<Rightarrow> bool \<Rightarrow> fetch_params \<Rightarrow> error + fetch_result" where
  "fetchFn env includeDetails =
     (if includeDetails then fetchModelsWithDetails env else fetchModels env)"

definition fetchCall :: "bool \<Rightarrow> fetch_params \<Rightarrow> fetch_call" where
  "fetchCall includeDetails p =
     (if includeDetails then FetchModelsWithDetails p else FetchModels p)"

definition fetchParams :: "env \<Rightarrow> request \<Rightarrow> endpoint \<Rightarrow> models_cfg \<Rightarrow> fetch_params" where
  "fetchParams env req endpoint mdls =
     \<lparr> arg_name = normalizeEndpointName env (name endpoint),
       arg_apiKey = extractEnvVariable env (apiKey endpoint),
       arg_baseURL = extractEnvVariable env (baseURL endpoint),
       arg_user = user_id (user req),
       arg_userObject = user req,
       arg_headers = headers endpoint,
       arg_direct = directEndpoint endpoint,
       arg_userIdQuery = userIdQuery mdls \<rparr>"

definition requiresFetch :: "env \<Rightarrow> endpoint \<Rightarrow> models_cfg \<Rightarrow> bool" where
  "requiresFetch env endpoint mdls \<longleftrightarrow>
     fetch mdls \<and> \<not> isUserProvided env (extractEnvVariable env (apiKey endpoint))
       \<and> \<not> isUserProvided env (extractEnvVariable env (baseURL endpoint))"

text \<open>
  \<open>fetchPromisesMap\<close> and \<open>uniqueKeyToEndpointsMap\<close> are objects made by \<open>{}\<close>, and
  lines 79-92 read them with \<open>map[uniqueKey]\<close>: the read finds an own entry, or else a
  property inherited from \<open>Object.prototype\<close>. The inherited names are listed below; each
  holds a function or the prototype object itself, a truthy value that has no \<open>push\<close>.
\<close>

definition objectPrototypeKeys :: "string list" where
  "objectPrototypeKeys =
     [''constructor'', ''__defineGetter__'', ''__defineSetter__'', ''hasOwnProperty'',
      ''__lookupGetter__'', ''__lookupSetter__'', ''isPrototypeOf'', ''propertyIsEnumerable'',
      ''toString'', ''valueOf'', ''__proto__'', ''toLocaleString'']"

datatype 'a property = Own 'a | Inherited | Missing

definition getProperty :: "(string \<rightharpoonup> 'a) \<Rightarrow> string \<Rightarrow> 'a property" where
  "getProperty own key =
     (case own key of
        Some v \<Rightarrow> Own v
      | None \<Rightarrow> if key \<in> set objectPrototypeKeys then Inherited else Missing)"

definition pushRaises :: error where
  "pushRaises = TypeError ''uniqueKeyToEndpointsMap[uniqueKey].push is not a function''"

text \<open>
  One pass of the loop body. An inherited value found under the key is truthy, so
  \<open>fetchFn\<close> is not called (line 80); the same value is then found in
  \<open>uniqueKeyToEndpointsMap\<close> (line 91) and \<open>push\<close> on it raises (line 92). The
  assignments of lines 79 and 91 store the inherited value back under the key; nothing
  reads it again, since the exception leaves the function.
\<close>

definition endpointStep ::
  "env \<Rightarrow> request \<Rightarrow> bool \<Rightarrow> endpoint \<Rightarrow> models_cfg \<Rightarrow> loop_state \<Rightarrow> error + loop_state" where
  "endpointStep env req includeDetails endpoint mdls s =
     (let nm = normalizeEndpointName env (name endpoint);
          s1 = s\<lparr>endpointsMap := (endpointsMap s)(nm \<mapsto> endpoint)\<rparr>;
          key = uniqueKey env endpoint;
          s2 = s1\<lparr>modelsConfig := (modelsConfig s1)(nm \<mapsto> [])\<rparr>
      in if requiresFetch env endpoint mdls then
           let p = fetchParams env req endpoint mdls;
               s3 = (case getProperty (map_of (fetchPromisesMap s2)) key of
                       Own promise \<Rightarrow> s2
                     | Inherited \<Rightarrow> s2
                     | Missing \<Rightarrow>
                         s2\<lparr>fetchPromisesMap :=
                               fetchPromisesMap s2 @ [(key, fetchFn env includeDetails p)],
                             fetchCalls := fetchCalls s2 @ [fetchCall includeDetails p]\<rparr>)
           in (case getProperty (uniqueKeyToEndpointsMap s3) key of
                 Own names \<Rightarrow>
                   Inr (s3\<lparr>uniqueKeyToEndpointsMap :=
                              (uniqueKeyToEndpointsMap s3)(key \<mapsto> names @ [nm])\<rparr>)
               | Missing \<Rightarrow>
                   Inr (s3\<lparr>uniqueKeyToEndpointsMap :=
                              (uniqueKeyToEndpointsMap s3)(key \<mapsto> [nm])\<rparr>)
               | Inherited \<Rightarrow> Inl pushRaises)
         else
           Inr (case default_models mdls of
                  Some ds \<Rightarrow> s2\<lparr>modelsConfig := (modelsConfig s2)(nm \<mapsto> map entryName ds)\<rparr>
                | None \<Rightarrow> s2))"

text \<open>
  Reading \<open>models.fetch\<close> of an endpoint without \<open>models\<close> raises. When the body
  raises, the loop ends with the error and the trace of the calls made before.
\<close>

fun endpointLoop ::
  "env \<Rightarrow> request \<Rightarrow> bool \<Rightarrow> endpoint list \<Rightarrow> loop_state \<Rightarrow> error option \<times> loop_state" where
  "endpointLoop env req includeDetails [] s = (None, s)"
| "endpointLoop env req includeDetails (endpoint # rest) s =
     (case models endpoint of
        None \<Rightarrow> (Some (TypeError ''models is undefined''), s)
      | Some mdls \<Rightarrow>
          (case endpointStep env req includeDetails endpoint mdls s of
             Inl e \<Rightarrow> (Some e, s)
           | Inr s' \<Rightarrow> endpointLoop env req includeDetails rest s'))"

subsection \<open>Awaiting the fetches (line 103)\<close>

text \<open>
  \<open>Promise.all\<close> resolves to the values in key order, or rejects with the reason of
  a rejected promise. Time is not modelled: of several rejections the model reports the
  first in key order.
\<close>

fun promiseAll :: "(error + 'a) list \<Rightarrow> error + 'a list" where
  "promiseAll [] = Inr []"
| "promiseAll (Inl e # ps) = Inl e"
| "promiseAll (Inr v # ps) = (case promiseAll ps of Inl e \<Rightarrow> Inl e | Inr vs \<Rightarrow> Inr (v # vs))"

subsection \<open>Handing the results to the endpoints (lines 106-127)\<close>

text \<open>\<open>!data?.length\<close>: true unless the value is a non-empty array.\<close>

fun noLength :: "fetch_result \<Rightarrow> bool" where
  "noLength (FList l) = (l = [])"
| "noLength FAbsent = True"
| "noLength (FDetailed ml md) = True"

text \<open>
  \<open>endpoint.models.default ?? []\<close>. The endpoint is read only when the fetched
  list is empty or absent; reading it raises when the name has no configuration or the
  configuration has no \<open>models\<close>.
\<close>

definition defaultOrEmpty :: "models_cfg \<Rightarrow> model_list" where
  "defaultOrEmpty mdls = (case default_models mdls of None \<Rightarrow> [] | Some ds \<Rightarrow> ds)"

fun endpointDefault :: "endpoint option \<Rightarrow> error + model_list" where
  "endpointDefault None = Inl (TypeError ''endpoint is undefined'')"
| "endpointDefault (Some endpoint) =
     (case models endpoint of
        None \<Rightarrow> Inl (TypeError ''models is undefined'')
      | Some mdls \<Rightarrow> Inr (defaultOrEmpty mdls))"

fun assignModels ::
  "bool \<Rightarrow> fetch_result \<Rightarrow> endpoint option \<Rightarrow> string \<Rightarrow> models_config \<times> model_details
     \<Rightarrow> error + models_config \<times> model_details" where
  "assignModels True (FDetailed modelList modelDetails) endpoint nm (mc, allModelDetails) =
     (case (case modelList of
              None \<Rightarrow> endpointDefault endpoint
            | Some l \<Rightarrow> if l = [] then endpointDefault endpoint else Inr l) of
        Inl e \<Rightarrow> Inl e
      | Inr assigned \<Rightarrow>
          Inr (mc(nm \<mapsto> assigned),
               (case modelDetails of
                  Some md \<Rightarrow> allModelDetails ++ md
                | None \<Rightarrow> allModelDetails)))"
| "assignModels includeDetails data endpoint nm (mc, allModelDetails) =
     (case (if noLength data then endpointDefault endpoint
            else Inr (case data of FList l \<Rightarrow> l | _ \<Rightarrow> [])) of
        Inl e \<Rightarrow> Inl e
      | Inr assigned \<Rightarrow> Inr (mc(nm \<mapsto> assigned), allModelDetails))"

fun namesLoop ::
  "bool \<Rightarrow> fetch_result \<Rightarrow> (string \<rightharpoonup> endpoint) \<Rightarrow> string list
     \<Rightarrow> models_config \<times> model_details \<Rightarrow> error + models_config \<times> model_details" where
  "namesLoop includeDetails data em [] acc = Inr acc"
| "namesLoop includeDetails data em (nm # rest) acc =
     (case assignModels includeDetails data (em nm) nm acc of
        Inl e \<Rightarrow> Inl e
      | Inr acc' \<Rightarrow> namesLoop includeDetails data em rest acc')"

fun resultsLoop ::
  "bool \<Rightarrow> (string \<rightharpoonup> string list) \<Rightarrow> (string \<rightharpoonup> endpoint)
     \<Rightarrow> (string \<times> fetch_result) list
     \<Rightarrow> models_config \<times> model_details \<Rightarrow> error + models_config \<times> model_details" where
  "resultsLoop includeDetails groups em [] acc = Inr acc"
| "resultsLoop includeDetails groups em ((currentKey, data) # rest) acc =
     (case groups currentKey of
        None \<Rightarrow> Inl (TypeError ''associatedNames is not iterable'')
      | Some associatedNames \<Rightarrow>
          (case namesLoop includeDetails data em associatedNames acc of
             Inl e \<Rightarrow> Inl e
           | Inr acc' \<Rightarrow> resultsLoop includeDetails groups em rest acc'))"

subsection \<open>The function (lines 17-134)\<close>

definition shape :: "bool \<Rightarrow> models_config \<Rightarrow> model_details \<Rightarrow> models_result" where
  "shape includeDetails mc det =
     (if includeDetails then DetailedConfig mc det else PlainConfig mc)"

definition azureModels :: "env \<Rightarrow> app_config \<Rightarrow> models_config" where
  "azureModels env appConfig =
     (let azureConfig = (case endpoints appConfig of None \<Rightarrow> None | Some eps \<Rightarrow> azureOpenAI eps);
          mc1 = (case azureConfig of
                   None \<Rightarrow> Map.empty
                 | Some az \<Rightarrow>
                     (case modelNames az of
                        None \<Rightarrow> Map.empty
                      | Some mn \<Rightarrow> [EModelEndpoint_azureOpenAI env \<mapsto> mn]))
      in (case azureConfig of
            None \<Rightarrow> mc1
          | Some az \<Rightarrow>
              if assistants az then
                (case assistantModels az of
                   None \<Rightarrow> mc1
                 | Some am \<Rightarrow> mc1(EModelEndpoint_azureAssistants env \<mapsto> am))
              else mc1))"

definition customValue :: "app_config \<Rightarrow> custom_value" where
  "customValue appConfig =
     (case endpoints appConfig of None \<Rightarrow> NotAnArray | Some eps \<Rightarrow> custom eps)"

definition loadConfigModels ::
  "env \<Rightarrow> request \<Rightarrow> bool \<Rightarrow> fetch_call list
     \<Rightarrow> (error + models_result) \<times> fetch_call list" where
  "loadConfigModels env req includeDetails calls =
     (case getAppConfig env (role (user req)) of
        Inl e \<Rightarrow> (Inl e, calls)
      | Inr None \<Rightarrow> (Inr (shape includeDetails Map.empty Map.empty), calls)
      | Inr (Some appConfig) \<Rightarrow>
          (case customValue appConfig of
             NotAnArray \<Rightarrow>
               (Inr (shape includeDetails (azureModels env appConfig) Map.empty), calls)
           | CustomArray configured \<Rightarrow>
               (let customEndpoints = filter eligible configured;
                    (thrown, s) =
                      endpointLoop env req includeDetails customEndpoints
                        \<lparr> modelsConfig = azureModels env appConfig,
                          fetchPromisesMap = [],
                          uniqueKeyToEndpointsMap = Map.empty,
                          endpointsMap = Map.empty,
                          fetchCalls = calls \<rparr>
                in case thrown of
                     Some e \<Rightarrow> (Inl e, fetchCalls s)
                   | None \<Rightarrow>
                       (case promiseAll (map snd (fetchPromisesMap s)) of
                          Inl e \<Rightarrow> (Inl e, fetchCalls s)
                        | Inr fetchedData \<Rightarrow>
                            (case resultsLoop includeDetails (uniqueKeyToEndpointsMap s)
                                    (endpointsMap s)
                                    (zip (map fst (fetchPromisesMap s)) fetchedData)
                                    (modelsConfig s, Map.empty) of
                               Inl e \<Rightarrow> (Inl e, fetchCalls s)
                             | Inr (mc, allModelDetails) \<Rightarrow>
                                 (Inr (shape includeDetails mc allModelDetails),
                                  fetchCalls s))))))"

section \<open>The controller\<close>

record state =
  cache :: "string \<rightharpoonup> models_result"
  fetchLog :: "fetch_call list"
  defaultCalls :: nat

definition cacheKey :: "env \<Rightarrow> bool \<Rightarrow> string" where
  "cacheKey env includeDetails =
     (if includeDetails then CacheKeys_MODELS_CONFIG env @ ''_details''
      else CacheKeys_MODELS_CONFIG env)"

text \<open>
  In detailed mode \<open>loadModels\<close> reads \<open>customResult.models\<close> and
  \<open>customResult.modelDetails\<close>, in plain mode it spreads \<open>customResult\<close> itself.
  \<open>loadConfigModels\<close> returns the form of the mode it is called with (lemma
  \<open>loadConfigModels_shape\<close> below), so the case of the other form is never taken; it
  stands as an error.
\<close>

definition loadModels ::
  "env \<Rightarrow> request \<Rightarrow> bool \<Rightarrow> state \<Rightarrow> (error + models_result) \<times> state" where
  "loadModels env req includeDetails st =
     (case cache st (cacheKey env includeDetails) of
        Some cachedModelsConfig \<Rightarrow> (Inr cachedModelsConfig, st)
      | None \<Rightarrow>
          (let st1 = st\<lparr>defaultCalls := Suc (defaultCalls st)\<rparr>
           in case loadDefaultModels env req of
                Inl e \<Rightarrow> (Inl e, st1)
              | Inr defaultModelsConfig \<Rightarrow>
                  (case loadConfigModels env req includeDetails (fetchLog st1) of
                     (Inl e, calls) \<Rightarrow> (Inl e, st1\<lparr>fetchLog := calls\<rparr>)
                   | (Inr customResult, calls) \<Rightarrow>
                       (let st2 = st1\<lparr>fetchLog := calls\<rparr>
                        in if includeDetails then
                             (case customResult of
                                DetailedConfig customModels customDetails \<Rightarrow>
                                  (let modelConfig =
                                         DetailedConfig (defaultModelsConfig ++ customModels)
                                           customDetails
                                   in (Inr modelConfig,
                                       st2\<lparr>cache := (cache st2)
                                             (cacheKey env includeDetails \<mapsto> modelConfig)\<rparr>))
                              | PlainConfig customModels \<Rightarrow>
                                  (Inl (TypeError ''customResult has no models''), st2))
                           else
                             (case customResult of
                                PlainConfig customModelsConfig \<Rightarrow>
                                  (let modelConfig =
                                         PlainConfig (defaultModelsConfig ++ customModelsConfig)
                                   in (Inr modelConfig,
                                       st2\<lparr>cache := (cache st2)
                                             (cacheKey env includeDetails \<mapsto> modelConfig)\<rparr>))
                              | DetailedConfig customModels customDetails \<Rightarrow>
                                  (Inl (TypeError ''customResult is not a mapping''), st2))))))"

definition getModelsConfig ::
  "env \<Rightarrow> request \<Rightarrow> bool \<Rightarrow> state \<Rightarrow> (error + models_result) \<times> state" where
  "getModelsConfig env req includeDetails st =
     (case cache st (cacheKey env includeDetails) of
        Some cachedConfig \<Rightarrow> (Inr cachedConfig, st)
      | None \<Rightarrow> loadModels env req includeDetails st)"




section \<open>Notions used in the statements\<close>

subsection \<open>Endpoints, keys and groups\<close>

text \<open>The name under which an endpoint is entered in the result.\<close>

definition nname :: "env \<Rightarrow> endpoint \<Rightarrow> string" where
  "nname env e = normalizeEndpointName env (name e)"

text \<open>An endpoint for which the loop takes the fetch branch (line 77).\<close>

definition needsFetch :: "env \<Rightarrow> endpoint \<Rightarrow> bool" where
  "needsFetch env e = (case models e of None \<Rightarrow> False | Some m \<Rightarrow> requiresFetch env e m)"

text \<open>A list without its repetitions, each element at its first occurrence.\<close>

definition firstSeen :: "'a list \<Rightarrow> 'a list" where
  "firstSeen xs = rev (remdups (rev xs))"

text \<open>The distinct keys of the fetch-requiring endpoints, in declaration order.\<close>

definition fetchKeys :: "env \<Rightarrow> endpoint list \<Rightarrow> string list" where
  "fetchKeys env es = firstSeen (map (uniqueKey env) (filter (needsFetch env) es))"

text \<open>
  The promise of a key, as the value it settles to: the collaborator is called with the
  parameters of the first endpoint that has the key. The promises in key order.
\<close>

definition promiseFor ::
  "env \<Rightarrow> request \<Rightarrow> bool \<Rightarrow> endpoint list \<Rightarrow> string \<Rightarrow> (error + fetch_result) option" where
  "promiseFor env req d es k =
     (case find (\<lambda>e. needsFetch env e \<and> uniqueKey env e = k) es of
        None \<Rightarrow> None
      | Some e \<Rightarrow>
          (case models e of
             None \<Rightarrow> None
           | Some m \<Rightarrow> Some (fetchFn env d (fetchParams env req e m))))"

definition promisesKept ::
  "env \<Rightarrow> request \<Rightarrow> bool \<Rightarrow> endpoint list \<Rightarrow> (error + fetch_result) list" where
  "promisesKept env req d es = List.map_filter (promiseFor env req d es) (fetchKeys env es)"

text \<open>No fetch-requiring endpoint has a key that names an inherited property.\<close>

definition safeKeys :: "env \<Rightarrow> endpoint list \<Rightarrow> bool" where
  "safeKeys env es \<longleftrightarrow>
     (\<forall>e\<in>set es. \<not> (needsFetch env e \<and> uniqueKey env e \<in> set objectPrototypeKeys))"

text \<open>
  What the loop gets for a key: the value that the one fetch settles to, or, for a key
  that names an inherited property, the error raised in place of the fetch. The outcomes
  in key order. Where every outcome is a resolved value, no key names an inherited
  property.
\<close>

definition fetchOutcome ::
  "env \<Rightarrow> request \<Rightarrow> bool \<Rightarrow> endpoint list \<Rightarrow> string \<Rightarrow> (error + fetch_result) option" where
  "fetchOutcome env req d es k =
     (case promiseFor env req d es k of
        None \<Rightarrow> None
      | Some promise \<Rightarrow>
          Some (if k \<in> set objectPrototypeKeys then Inl pushRaises else promise))"

definition fetchOutcomes ::
  "env \<Rightarrow> request \<Rightarrow> bool \<Rightarrow> endpoint list \<Rightarrow> (error + fetch_result) list" where
  "fetchOutcomes env req d es = List.map_filter (fetchOutcome env req d es) (fetchKeys env es)"

text \<open>The normalized names of the endpoints that share a key, and the map of the groups.\<close>

definition groupNames :: "env \<Rightarrow> endpoint list \<Rightarrow> string \<Rightarrow> string list" where
  "groupNames env es k =
     map (nname env) (filter (\<lambda>e. needsFetch env e \<and> uniqueKey env e = k) es)"

definition groupsOf :: "env \<Rightarrow> endpoint list \<Rightarrow> string \<rightharpoonup> string list" where
  "groupsOf env es k = (if groupNames env es k = [] then None else Some (groupNames env es k))"

text \<open>The configuration that \<open>endpointsMap\<close> holds for a name: the last one entered.\<close>

definition lastNamed :: "env \<Rightarrow> endpoint list \<Rightarrow> string \<Rightarrow> endpoint option" where
  "lastNamed env es n = find (\<lambda>e. nname env e = n) (rev es)"

text \<open>No other endpoint of the list has the same normalized name.\<close>

definition nameUnique :: "env \<Rightarrow> endpoint list \<Rightarrow> endpoint \<Rightarrow> bool" where
  "nameUnique env es e \<longleftrightarrow> (\<forall>e'\<in>set es. nname env e' = nname env e \<longrightarrow> e = e')"

text \<open>The key that a recorded call was made for, and the calls an endpoint list can cause.\<close>

definition callKey :: "fetch_call \<Rightarrow> string" where
  "callKey c = arg_baseURL (call_params c) @ ''__'' @ arg_apiKey (call_params c)"

definition issuedFor :: "env \<Rightarrow> request \<Rightarrow> bool \<Rightarrow> endpoint list \<Rightarrow> fetch_call \<Rightarrow> bool" where
  "issuedFor env req d es c \<longleftrightarrow>
     (\<exists>e\<in>set es. \<exists>m. models e = Some m \<and> requiresFetch env e m \<and>
        c = fetchCall d (fetchParams env req e m))"

subsection \<open>Lists and details assigned\<close>

text \<open>The list of a non-fetch endpoint (lines 96-100).\<close>

definition staticModels :: "models_cfg \<Rightarrow> model_list" where
  "staticModels m = (case default_models m of None \<Rightarrow> [] | Some ds \<Rightarrow> map entryName ds)"

definition staticOf :: "endpoint \<Rightarrow> model_list" where
  "staticOf e = (case models e of None \<Rightarrow> [] | Some m \<Rightarrow> staticModels m)"

text \<open>
  The model list that the result loop reads from a fetched value (empty when there is
  none), the list it assigns to an endpoint, and the details it merges.
\<close>

definition fetchedList :: "bool \<Rightarrow> fetch_result \<Rightarrow> model_list" where
  "fetchedList d dat =
     (case (d, dat) of
        (True, FDetailed ml md) \<Rightarrow> (case ml of None \<Rightarrow> [] | Some l \<Rightarrow> l)
      | (_, FList l) \<Rightarrow> l
      | _ \<Rightarrow> [])"

definition assignedList :: "bool \<Rightarrow> fetch_result \<Rightarrow> models_cfg \<Rightarrow> model_list" where
  "assignedList d dat m =
     (case (d, dat) of
        (True, FDetailed ml md) \<Rightarrow>
          (case ml of None \<Rightarrow> defaultOrEmpty m | Some l \<Rightarrow> if l = [] then defaultOrEmpty m else l)
      | (_, FList l) \<Rightarrow> if l = [] then defaultOrEmpty m else l
      | _ \<Rightarrow> defaultOrEmpty m)"

definition fetchedDetails :: "bool \<Rightarrow> fetch_result \<Rightarrow> model_details" where
  "fetchedDetails d dat =
     (case (d, dat) of (True, FDetailed ml (Some md)) \<Rightarrow> md | _ \<Rightarrow> Map.empty)"

definition assignedFor ::
  "bool \<Rightarrow> fetch_result \<Rightarrow> (string \<rightharpoonup> endpoint) \<Rightarrow> string \<Rightarrow> model_list" where
  "assignedFor d dat em n =
     (case em n of
        None \<Rightarrow> []
      | Some e \<Rightarrow> (case models e of None \<Rightarrow> [] | Some m \<Rightarrow> assignedList d dat m))"

text \<open>Membership of a name in the group of a (key, value) pair.\<close>

definition inGroup :: "(string \<rightharpoonup> string list) \<Rightarrow> string \<Rightarrow> string \<times> fetch_result \<Rightarrow> bool" where
  "inGroup groups n kd = (case groups (fst kd) of None \<Rightarrow> False | Some ns \<Rightarrow> n \<in> set ns)"

text \<open>Every name of the list has a configuration with \<open>models\<close>.\<close>

definition resolvable :: "(string \<rightharpoonup> endpoint) \<Rightarrow> string list \<Rightarrow> bool" where
  "resolvable em ns \<longleftrightarrow> (\<forall>n\<in>set ns. \<exists>e m. em n = Some e \<and> models e = Some m)"

subsection \<open>The loop and the result in closed form\<close>

definition initState :: "models_config \<Rightarrow> fetch_call list \<Rightarrow> loop_state" where
  "initState mc0 calls0 =
     \<lparr> modelsConfig = mc0, fetchPromisesMap = [], uniqueKeyToEndpointsMap = Map.empty,
       endpointsMap = Map.empty, fetchCalls = calls0 \<rparr>"

text \<open>
  The loop body for a key that names no inherited property, where both reads find an own
  entry or nothing, and the state after a loop of such bodies.
\<close>

definition plainStep ::
  "env \<Rightarrow> request \<Rightarrow> bool \<Rightarrow> endpoint \<Rightarrow> models_cfg \<Rightarrow> loop_state \<Rightarrow> loop_state" where
  "plainStep env req includeDetails endpoint mdls s =
     (let nm = normalizeEndpointName env (name endpoint);
          s1 = s\<lparr>endpointsMap := (endpointsMap s)(nm \<mapsto> endpoint)\<rparr>;
          key = uniqueKey env endpoint;
          s2 = s1\<lparr>modelsConfig := (modelsConfig s1)(nm \<mapsto> [])\<rparr>
      in if requiresFetch env endpoint mdls then
           let p = fetchParams env req endpoint mdls;
               s3 = (case map_of (fetchPromisesMap s2) key of
                       Some promise \<Rightarrow> s2
                     | None \<Rightarrow>
                         s2\<lparr>fetchPromisesMap :=
                               fetchPromisesMap s2 @ [(key, fetchFn env includeDetails p)],
                             fetchCalls := fetchCalls s2 @ [fetchCall includeDetails p]\<rparr>);
               names = (case uniqueKeyToEndpointsMap s3 key of None \<Rightarrow> [] | Some ns \<Rightarrow> ns)
           in s3\<lparr>uniqueKeyToEndpointsMap := (uniqueKeyToEndpointsMap s3)(key \<mapsto> names @ [nm])\<rparr>
         else
           (case default_models mdls of
              Some ds \<Rightarrow> s2\<lparr>modelsConfig := (modelsConfig s2)(nm \<mapsto> map entryName ds)\<rparr>
            | None \<Rightarrow> s2))"

definition loopState :: "env \<Rightarrow> request \<Rightarrow> bool \<Rightarrow> endpoint list \<Rightarrow> loop_state \<Rightarrow> loop_state" where
  "loopState env req d es s =
     foldl (\<lambda>s e. case models e of None \<Rightarrow> s | Some m \<Rightarrow> plainStep env req d e m s) s es"

text \<open>
  The mapping returned when every fetch resolves: a name of a group has the list
  assigned by the last group processed that contains it, any other name keeps the entry
  of the first loop.
\<close>

definition resolvedModels ::
  "env \<Rightarrow> bool \<Rightarrow> models_config \<Rightarrow> endpoint list \<Rightarrow> fetch_result list \<Rightarrow> models_config" where
  "resolvedModels env d mc0 es results n =
     (case find (inGroup (groupsOf env es) n) (rev (zip (fetchKeys env es) results)) of
        None \<Rightarrow>
          (case lastNamed env es n of
             None \<Rightarrow> mc0 n
           | Some e \<Rightarrow> Some (if needsFetch env e then [] else staticOf e))
      | Some kd \<Rightarrow> Some (assignedFor d (snd kd) (lastNamed env es) n))"

definition mergedDetails :: "bool \<Rightarrow> fetch_result list \<Rightarrow> model_details" where
  "mergedDetails d results = foldl (++) Map.empty (map (fetchedDetails d) results)"

subsection \<open>Reading a request and a result\<close>

text \<open>The eligible custom endpoints of a request (lines 19-49); none when the
  configuration is absent or holds no array.\<close>

definition customEndpoints :: "env \<Rightarrow> request \<Rightarrow> endpoint list" where
  "customEndpoints env req =
     (case getAppConfig env (role (user req)) of
        Inr (Some appConfig) \<Rightarrow>
          (case customValue appConfig of
             CustomArray configured \<Rightarrow> filter eligible configured
           | NotAnArray \<Rightarrow> [])
      | _ \<Rightarrow> [])"

text \<open>The list that a result holds for a name, and the details it carries.\<close>

definition resolvedList :: "error + models_result \<Rightarrow> string \<Rightarrow> model_list option" where
  "resolvedList r n =
     (case r of
        Inl e \<Rightarrow> None
      | Inr (PlainConfig mc) \<Rightarrow> mc n
      | Inr (DetailedConfig mc det) \<Rightarrow> mc n)"

definition resolvedDetails :: "error + models_result \<Rightarrow> model_details option" where
  "resolvedDetails r =
     (case r of
        Inl e \<Rightarrow> None
      | Inr (PlainConfig mc) \<Rightarrow> None
      | Inr (DetailedConfig mc det) \<Rightarrow> Some det)"

text \<open>The detail that a result carries for a model id.\<close>

definition resolvedDetail :: "error + models_result \<Rightarrow> string \<Rightarrow> string option" where
  "resolvedDetail r x = (case resolvedDetails r of None \<Rightarrow> None | Some det \<Rightarrow> det x)"

section \<open>Example configurations\<close>

text \<open>A request, collaborators and endpoint configurations to evaluate the model on.\<close>

definition exampleUser :: user_t where
  "exampleUser = \<lparr> user_id = ''u1'', role = Some ''USER'' \<rparr>"

definition exampleRequest :: "string option \<Rightarrow> request" where
  "exampleRequest q = \<lparr> user = exampleUser, query_includeDetails = q \<rparr>"

definition exampleEnv ::
  "app_config option \<Rightarrow> (fetch_params \<Rightarrow> error + fetch_result) \<Rightarrow> env" where
  "exampleEnv cfg f =
     \<lparr> getAppConfig = (\<lambda>r. Inr cfg),
       extractEnvVariable = (\<lambda>s. s),
       normalizeEndpointName = (\<lambda>s. s),
       isUserProvided = (\<lambda>s. s = ''user_provided''),
       fetchModels = f,
       fetchModelsWithDetails = f,
       loadDefaultModels = (\<lambda>r. Inr [''openAI'' \<mapsto> [MStr ''gpt-4o'']]),
       EModelEndpoint_azureOpenAI = ''azureOpenAI'',
       EModelEndpoint_azureAssistants = ''azureAssistants'',
       CacheKeys_MODELS_CONFIG = ''modelsConfig'' \<rparr>"

definition exampleModels :: "bool \<Rightarrow> model_list option \<Rightarrow> models_cfg" where
  "exampleModels f ds = \<lparr> fetch = f, default_models = ds, userIdQuery = None \<rparr>"

definition exampleEndpoint ::
  "string \<Rightarrow> string \<Rightarrow> string \<Rightarrow> bool \<Rightarrow> model_list option \<Rightarrow> endpoint" where
  "exampleEndpoint n url key f ds =
     \<lparr> name = n, baseURL = url, apiKey = key, headers = None, directEndpoint = False,
       models = Some (exampleModels f ds) \<rparr>"

definition exampleConfig :: "endpoint list \<Rightarrow> app_config" where
  "exampleConfig es = \<lparr> endpoints = Some \<lparr> azureOpenAI = None, custom = CustomArray es \<rparr> \<rparr>"

text \<open>Endpoints \<open>A\<close> and \<open>B\<close> with the same baseURL and apiKey.\<close>

definition sharedKeyConfig :: "model_list option \<Rightarrow> model_list option \<Rightarrow> app_config" where
  "sharedKeyConfig dA dB =
     exampleConfig [exampleEndpoint ''A'' ''https://x'' ''K'' True dA,
                    exampleEndpoint ''B'' ''https://x'' ''K'' True dB]"


text \<open>A state with an empty cache, and a configuration with one fetched endpoint.\<close>

definition emptyState :: state where
  "emptyState = \<lparr> cache = Map.empty, fetchLog = [], defaultCalls = 0 \<rparr>"

definition oneFetchedEnv :: env where
  "oneFetchedEnv =
     exampleEnv (Some (exampleConfig [exampleEndpoint ''C'' ''https://x'' ''K'' True None]))
       (\<lambda>p. Inr (FList [MStr ''m1'']))"


text \<open>An Azure OpenAI configuration with model names, and no custom array.\<close>

definition azureOnlyEnv :: env where
  "azureOnlyEnv =
     exampleEnv
       (Some \<lparr> endpoints = Some \<lparr> azureOpenAI =
                   Some \<lparr> modelNames = Some [MStr ''gpt-4''], assistants = False,
                          assistantModels = None \<rparr>,
                 custom = NotAnArray \<rparr> \<rparr>)
       (\<lambda>p. Inr (FList []))"

text \<open>Neither an Azure OpenAI configuration nor a custom array.\<close>

definition noCustomEnv :: env where
  "noCustomEnv =
     exampleEnv (Some \<lparr> endpoints = Some \<lparr> azureOpenAI = None, custom = NotAnArray \<rparr> \<rparr>)
       (\<lambda>p. Inr (FList []))"

text \<open>Two providers whose detailed results both describe the model \<open>shared\<close>.\<close>

definition twoProvidersEnv :: env where
  "twoProvidersEnv =
     exampleEnv
       (Some (exampleConfig [exampleEndpoint ''P'' ''https://p'' ''K1'' True None,
                             exampleEndpoint ''Q'' ''https://q'' ''K2'' True None]))
       (\<lambda>p. if arg_baseURL p = ''https://p''
            then Inr (FDetailed (Some [MStr ''shared'', MStr ''p-only''])
                        (Some [''shared'' \<mapsto> ''from-p'', ''p-only'' \<mapsto> ''p'']))
            else Inr (FDetailed (Some [MStr ''shared''])
                        (Some [''shared'' \<mapsto> ''from-q''])))"

text \<open>
  An endpoint whose key is \<open>__proto__\<close>: the apiKey is a blank, and the resolver trims
  its argument.
\<close>

definition trim :: "string \<Rightarrow> string" where
  "trim s = rev (dropWhile (\<lambda>c. c = CHR '' '') (rev (dropWhile (\<lambda>c. c = CHR '' '') s)))"

definition inheritedKeyEndpoint :: endpoint where
  "inheritedKeyEndpoint = exampleEndpoint ''P'' ''__proto'' '' '' True None"

definition inheritedKeyEnv :: env where
  "inheritedKeyEnv =
     (exampleEnv (Some (exampleConfig [inheritedKeyEndpoint])) (\<lambda>p. Inr (FList [MStr ''m1''])))
       \<lparr> extractEnvVariable := trim \<rparr>"

text \<open>
  Two endpoints with different addresses and credentials whose keys coincide:
  \<open>https://h/a__\<close> with \<open>k\<close>, and \<open>https://h/a\<close> with \<open>__k\<close>. The fetch
  collaborator answers with the address it was called for.
\<close>

definition collidingEndpointX :: endpoint where
  "collidingEndpointX = exampleEndpoint ''X'' ''https://h/a__'' ''k'' True None"

definition collidingEndpointY :: endpoint where
  "collidingEndpointY = exampleEndpoint ''Y'' ''https://h/a'' ''__k'' True None"

definition collidingEnv :: env where
  "collidingEnv =
     exampleEnv (Some (exampleConfig [collidingEndpointX, collidingEndpointY]))
       (\<lambda>p. Inr (FList [MStr (arg_baseURL p)]))"

section \<open>Lemmas\<close>

subsection \<open>Unfolding for evaluation\<close>

lemmas code_defs =
  loadConfigModels_def Let_def endpointStep_def getProperty_def objectPrototypeKeys_def
  azureModels_def customValue_def eligible_def requiresFetch_def uniqueKey_def fetchFn_def
  fetchCall_def fetchParams_def shape_def defaultOrEmpty_def resolvedList_def

lemmas example_defs =
  exampleUser_def exampleRequest_def exampleEnv_def exampleModels_def exampleEndpoint_def
  exampleConfig_def

lemmas notion_defs =
  eligible_def requiresFetch_def uniqueKey_def nname_def needsFetch_def nameUnique_def
  fetchKeys_def firstSeen_def fetchOutcome_def fetchOutcomes_def promiseFor_def
  objectPrototypeKeys_def fetchFn_def fetchParams_def customValue_def fetchedList_def
  defaultOrEmpty_def shape_def map_filter_def

subsection \<open>The loop over the endpoints\<close>

lemma firstSeen_Nil [simp]: "firstSeen [] = []"
  by (simp add: firstSeen_def)

lemma firstSeen_snoc:
  "firstSeen (xs @ [x]) = (if x \<in> set xs then firstSeen xs else firstSeen xs @ [x])"
  by (simp add: firstSeen_def)

lemma set_firstSeen [simp]: "set (firstSeen xs) = set xs"
  by (simp add: firstSeen_def)

lemma distinct_firstSeen [simp]: "distinct (firstSeen xs)"
  by (simp add: firstSeen_def)

lemma find_snoc:
  "find P (xs @ [x]) = (case find P xs of Some y \<Rightarrow> Some y | None \<Rightarrow> if P x then Some x else None)"
  by (induction xs) auto


lemma loopState_Nil [simp]: "loopState env req d [] s = s"
  by (simp add: loopState_def)

lemma loopState_snoc:
  "\<forall>e\<in>set es. models e \<noteq> None \<Longrightarrow> models e = Some m \<Longrightarrow>
     loopState env req d (es @ [e]) s = plainStep env req d e m (loopState env req d es s)"
  by (simp add: loopState_def)

lemma step_endpointsMap:
  "endpointsMap (plainStep env req d e m s) = (endpointsMap s)(nname env e \<mapsto> e)"
  by (simp add: plainStep_def Let_def nname_def split: option.splits)

lemma step_modelsConfig:
  "modelsConfig (plainStep env req d e m s) =
     (modelsConfig s)(nname env e \<mapsto> (if requiresFetch env e m then [] else staticModels m))"
  by (simp add: plainStep_def Let_def nname_def staticModels_def split: option.splits)

lemma step_fetchPromisesMap:
  "fetchPromisesMap (plainStep env req d e m s) =
     (if requiresFetch env e m \<and> map_of (fetchPromisesMap s) (uniqueKey env e) = None
      then fetchPromisesMap s @ [(uniqueKey env e, fetchFn env d (fetchParams env req e m))]
      else fetchPromisesMap s)"
  by (simp add: plainStep_def Let_def split: option.splits)

lemma step_fetchCalls:
  "fetchCalls (plainStep env req d e m s) =
     (if requiresFetch env e m \<and> map_of (fetchPromisesMap s) (uniqueKey env e) = None
      then fetchCalls s @ [fetchCall d (fetchParams env req e m)]
      else fetchCalls s)"
  by (simp add: plainStep_def Let_def split: option.splits)

lemma step_uniqueKeyToEndpointsMap:
  "uniqueKeyToEndpointsMap (plainStep env req d e m s) =
     (if requiresFetch env e m
      then (uniqueKeyToEndpointsMap s)
             (uniqueKey env e \<mapsto>
                (case uniqueKeyToEndpointsMap s (uniqueKey env e) of None \<Rightarrow> [] | Some ns \<Rightarrow> ns)
                  @ [nname env e])
      else uniqueKeyToEndpointsMap s)"
  by (simp add: plainStep_def Let_def nname_def split: option.splits)

lemma needsFetch_Some: "models e = Some m \<Longrightarrow> needsFetch env e = requiresFetch env e m"
  by (simp add: needsFetch_def)

lemma fetchKeys_Nil [simp]: "fetchKeys env [] = []"
  by (simp add: fetchKeys_def)

lemma set_fetchKeys:
  "set (fetchKeys env es) = uniqueKey env ` {e \<in> set es. needsFetch env e}"
  by (auto simp: fetchKeys_def)

lemma distinct_fetchKeys [simp]: "distinct (fetchKeys env es)"
  by (simp add: fetchKeys_def)

lemma fetchKeys_snoc:
  "fetchKeys env (es @ [e]) =
     (if needsFetch env e \<and> uniqueKey env e \<notin> set (fetchKeys env es)
      then fetchKeys env es @ [uniqueKey env e] else fetchKeys env es)"
  by (auto simp: fetchKeys_def firstSeen_snoc)

lemma promiseFor_snoc:
  "promiseFor env req d (es @ [e]) k =
     (case promiseFor env req d es k of
        Some p \<Rightarrow> Some p
      | None \<Rightarrow>
          (case models e of
             None \<Rightarrow> None
           | Some m \<Rightarrow>
               if requiresFetch env e m \<and> uniqueKey env e = k
               then Some (fetchFn env d (fetchParams env req e m)) else None))"
proof (cases "find (\<lambda>e. needsFetch env e \<and> uniqueKey env e = k) es")
  case None
  then show ?thesis
    by (simp add: promiseFor_def find_snoc needsFetch_def split: option.splits)
next
  case (Some x)
  then have "needsFetch env x" by (auto simp: find_Some_iff)
  then obtain mx where "models x = Some mx"
    by (auto simp: needsFetch_def split: option.splits)
  with Some show ?thesis by (simp add: promiseFor_def find_snoc)
qed

lemma promiseFor_None_iff:
  "promiseFor env req d es k = None \<longleftrightarrow> k \<notin> set (fetchKeys env es)"
  by (auto simp: promiseFor_def set_fetchKeys find_None_iff needsFetch_def
      split: option.splits dest!: find_Some_iff [THEN iffD1])

lemma groupNames_snoc:
  "groupNames env (es @ [e]) k =
     groupNames env es k @ (if needsFetch env e \<and> uniqueKey env e = k then [nname env e] else [])"
  by (simp add: groupNames_def)

lemma groupNames_Nil [simp]: "groupNames env [] k = []"
  by (simp add: groupNames_def)

lemma lastNamed_snoc:
  "lastNamed env (es @ [e]) n = (if nname env e = n then Some e else lastNamed env es n)"
  by (simp add: lastNamed_def)

lemma lastNamed_Nil [simp]: "lastNamed env [] n = None"
  by (simp add: lastNamed_def)

lemma inv_keys:
  "\<forall>e\<in>set es. models e \<noteq> None \<Longrightarrow>
     map fst (fetchPromisesMap (loopState env req d es (initState mc0 calls0))) = fetchKeys env es"
proof (induction es rule: rev_induct)
  case Nil
  show ?case by (simp add: initState_def)
next
  case (snoc e es)
  then obtain m where m: "models e = Some m" by auto
  from snoc have ok: "\<forall>e\<in>set es. models e \<noteq> None" by simp
  let ?S = "loopState env req d es (initState mc0 calls0)"
  have IH: "map fst (fetchPromisesMap ?S) = fetchKeys env es" using snoc.IH ok by simp
  have none: "map_of (fetchPromisesMap ?S) k = None \<longleftrightarrow> k \<notin> set (fetchKeys env es)" for k
    using IH by (metis map_of_eq_None_iff set_map)
  show ?case
    by (simp add: loopState_snoc [OF ok m] step_fetchPromisesMap fetchKeys_snoc
        needsFetch_Some [OF m] none IH)
qed

lemma inv_outcome:
  "\<forall>e\<in>set es. models e \<noteq> None \<Longrightarrow>
     map_of (fetchPromisesMap (loopState env req d es (initState mc0 calls0))) k
       = promiseFor env req d es k"
proof (induction es rule: rev_induct)
  case Nil
  show ?case by (simp add: initState_def promiseFor_def)
next
  case (snoc e es)
  then obtain m where m: "models e = Some m" by auto
  from snoc have ok: "\<forall>e\<in>set es. models e \<noteq> None" by simp
  let ?S = "loopState env req d es (initState mc0 calls0)"
  have IH: "map_of (fetchPromisesMap ?S) k = promiseFor env req d es k" using snoc.IH ok by simp
  have keys: "map fst (fetchPromisesMap ?S) = fetchKeys env es" using ok by (rule inv_keys)
  have none: "map_of (fetchPromisesMap ?S) k' = None \<longleftrightarrow> k' \<notin> set (fetchKeys env es)" for k'
    using keys by (metis map_of_eq_None_iff set_map)
  show ?case
  proof (cases "requiresFetch env e m \<and> uniqueKey env e \<notin> set (fetchKeys env es)")
    case True
    then have new: "map_of (fetchPromisesMap ?S) (uniqueKey env e) = None"
      by (simp add: none)
    have "promiseFor env req d es (uniqueKey env e) = None"
      using True by (simp add: promiseFor_None_iff)
    with True new show ?thesis
      using IH
      by (simp add: loopState_snoc [OF ok m] step_fetchPromisesMap promiseFor_snoc m
          map_add_def split: option.splits)
  next
    case False
    then have old: "\<not> (requiresFetch env e m \<and>
        map_of (fetchPromisesMap ?S) (uniqueKey env e) = None)"
      by (simp add: none)
    have same: "fetchPromisesMap (loopState env req d (es @ [e]) (initState mc0 calls0))
        = fetchPromisesMap ?S"
      using old by (simp add: loopState_snoc [OF ok m] step_fetchPromisesMap)
    have "promiseFor env req d (es @ [e]) k = promiseFor env req d es k"
    proof (cases "promiseFor env req d es k")
      case None
      then have "k \<notin> set (fetchKeys env es)" by (simp add: promiseFor_None_iff)
      with False have "\<not> (requiresFetch env e m \<and> uniqueKey env e = k)" by auto
      with None show ?thesis by (simp add: promiseFor_snoc m)
    next
      case (Some p)
      then show ?thesis by (simp add: promiseFor_snoc)
    qed
    with same IH show ?thesis by simp
  qed
qed

lemma inv_groups:
  "\<forall>e\<in>set es. models e \<noteq> None \<Longrightarrow>
     uniqueKeyToEndpointsMap (loopState env req d es (initState mc0 calls0)) k
       = (if groupNames env es k = [] then None else Some (groupNames env es k))"
proof (induction es arbitrary: k rule: rev_induct)
  case Nil
  show ?case by (simp add: initState_def)
next
  case (snoc e es)
  then obtain m where m: "models e = Some m" by auto
  from snoc have ok: "\<forall>e\<in>set es. models e \<noteq> None" by simp
  let ?S = "loopState env req d es (initState mc0 calls0)"
  have IH: "uniqueKeyToEndpointsMap ?S k' =
      (if groupNames env es k' = [] then None else Some (groupNames env es k'))" for k'
    using snoc.IH [of k'] ok by simp
  show ?case
    by (simp add: loopState_snoc [OF ok m] step_uniqueKeyToEndpointsMap groupNames_snoc
        needsFetch_Some [OF m] IH)
qed

lemma inv_endpointsMap:
  "\<forall>e\<in>set es. models e \<noteq> None \<Longrightarrow>
     endpointsMap (loopState env req d es (initState mc0 calls0)) n = lastNamed env es n"
proof (induction es rule: rev_induct)
  case Nil
  show ?case by (simp add: initState_def)
next
  case (snoc e es)
  then obtain m where m: "models e = Some m" by auto
  from snoc have ok: "\<forall>e\<in>set es. models e \<noteq> None" by simp
  show ?case using snoc.IH ok
    by (simp add: loopState_snoc [OF ok m] step_endpointsMap lastNamed_snoc)
qed

lemma inv_modelsConfig:
  "\<forall>e\<in>set es. models e \<noteq> None \<Longrightarrow>
     modelsConfig (loopState env req d es (initState mc0 calls0)) n =
       (case lastNamed env es n of
          None \<Rightarrow> mc0 n
        | Some e \<Rightarrow> Some (if needsFetch env e then [] else staticOf e))"
proof (induction es rule: rev_induct)
  case Nil
  show ?case by (simp add: initState_def)
next
  case (snoc e es)
  then obtain m where m: "models e = Some m" by auto
  from snoc have ok: "\<forall>e\<in>set es. models e \<noteq> None" by simp
  show ?case using snoc.IH ok
    by (simp add: loopState_snoc [OF ok m] step_modelsConfig lastNamed_snoc
        needsFetch_Some [OF m] staticOf_def m)
qed

subsection \<open>The loops over the results\<close>

lemma assignModels_eq:
  assumes m: "models e = Some m"
  shows "assignModels d dat (Some e) n (mc, det) =
           Inr (mc(n \<mapsto> assignedList d dat m), det ++ fetchedDetails d dat)"
proof (cases d)
  case True
  show ?thesis
  proof (cases dat)
    case (FDetailed ml md)
    show ?thesis
      by (cases md; cases ml)
         (simp_all add: True FDetailed assignedList_def fetchedDetails_def m)
  qed (simp_all add: True assignedList_def fetchedDetails_def m)
next
  case False
  show ?thesis
    by (cases dat) (simp_all add: False assignedList_def fetchedDetails_def m)
qed

lemma namesLoop_eq:
  "resolvable em ns \<Longrightarrow>
     namesLoop d dat em ns (mc, det) =
       Inr (\<lambda>n. if n \<in> set ns then Some (assignedFor d dat em n) else mc n,
            if ns = [] then det else det ++ fetchedDetails d dat)"
proof (induction ns arbitrary: mc det)
  case Nil
  show ?case by simp
next
  case (Cons n ns)
  from Cons.prems obtain e m where e: "em n = Some e" and m: "models e = Some m"
    by (auto simp: resolvable_def)
  from Cons.prems have r: "resolvable em ns" by (simp add: resolvable_def)
  have a: "assignedFor d dat em n = assignedList d dat m"
    by (simp add: assignedFor_def e m)
  have idem: "det ++ fetchedDetails d dat ++ fetchedDetails d dat = det ++ fetchedDetails d dat"
    by (rule ext) (simp add: map_add_def split: option.splits)
  have step: "namesLoop d dat em (n # ns) (mc, det) =
      namesLoop d dat em ns (mc(n \<mapsto> assignedList d dat m), det ++ fetchedDetails d dat)"
    by (simp add: e assignModels_eq [OF m])
  have f: "(\<lambda>x. if x \<in> set ns then Some (assignedFor d dat em x)
                else (mc(n \<mapsto> assignedList d dat m)) x)
         = (\<lambda>x. if x \<in> set (n # ns) then Some (assignedFor d dat em x) else mc x)"
    by (rule ext) (simp add: a)
  show ?case
    unfolding step Cons.IH [OF r] f by (simp add: idem)
qed

lemma resultsLoop_eq:
  "\<forall>kd\<in>set kds. \<exists>ns. groups (fst kd) = Some ns \<and> ns \<noteq> [] \<and> resolvable em ns \<Longrightarrow>
     resultsLoop d groups em kds (mc, det) =
       Inr (\<lambda>n. case find (inGroup groups n) (rev kds) of
                   None \<Rightarrow> mc n
                 | Some kd \<Rightarrow> Some (assignedFor d (snd kd) em n),
            foldl (++) det (map (fetchedDetails d \<circ> snd) kds))"
proof (induction kds arbitrary: mc det)
  case Nil
  show ?case by simp
next
  case (Cons kd kds)
  obtain k dat where kd: "kd = (k, dat)" by (cases kd)
  from Cons.prems kd obtain ns where ns: "groups k = Some ns" "ns \<noteq> []" "resolvable em ns"
    by auto
  from Cons.prems have rest: "\<forall>kd\<in>set kds. \<exists>ns. groups (fst kd) = Some ns \<and> ns \<noteq> [] \<and> resolvable em ns"
    by simp
  have first: "inGroup groups n (k, dat) \<longleftrightarrow> n \<in> set ns" for n
    by (simp add: inGroup_def ns)
  have step: "resultsLoop d groups em (kd # kds) (mc, det) =
      resultsLoop d groups em kds
        (\<lambda>n. if n \<in> set ns then Some (assignedFor d dat em n) else mc n,
         det ++ fetchedDetails d dat)"
    by (simp add: kd ns namesLoop_eq)
  have f: "(case find (inGroup groups n) (rev kds) of
              None \<Rightarrow> if n \<in> set ns then Some (assignedFor d dat em n) else mc n
            | Some kd \<Rightarrow> Some (assignedFor d (snd kd) em n))
         = (case find (inGroup groups n) (rev (kd # kds)) of
              None \<Rightarrow> mc n
            | Some kd \<Rightarrow> Some (assignedFor d (snd kd) em n))" for n
    by (simp add: kd find_snoc first split: option.splits)
  show ?case
    unfolding step Cons.IH [OF rest] by (simp add: f kd comp_def)
qed

subsection \<open>Awaiting\<close>

lemma promiseAll_Inr: "promiseAll ps = Inr vs \<Longrightarrow> ps = map Inr vs"
proof (induction ps arbitrary: vs rule: promiseAll.induct)
  case 1
  then show ?case by simp
next
  case (2 e ps)
  then show ?case by simp
next
  case (3 v ps)
  show ?case
  proof (cases "promiseAll ps")
    case (Inl e)
    with "3.prems" show ?thesis by simp
  next
    case (Inr ws)
    with "3.prems" have vs: "vs = v # ws" by simp
    from "3.IH" [OF Inr] show ?thesis by (simp add: vs)
  qed
qed

lemma promiseAll_map_Inr: "promiseAll (map Inr vs) = Inr vs"
  by (induction vs) simp_all



lemma find_unique:
  assumes "x \<in> set xs" and "P x" and "\<And>y. y \<in> set xs \<Longrightarrow> P y \<Longrightarrow> x = y"
  shows "find P xs = Some x"
  using assms
proof (induction xs)
  case Nil
  then show ?case by simp
next
  case (Cons a xs)
  show ?case
  proof (cases "P a")
    case True
    have "x = a" by (rule Cons.prems(3)) (simp_all add: True)
    with True show ?thesis by simp
  next
    case False
    with Cons.prems(1,2) have in_xs: "x \<in> set xs" by auto
    have "find P xs = Some x"
      by (rule Cons.IH [OF in_xs Cons.prems(2)]) (rule Cons.prems(3), simp_all)
    with False show ?thesis by simp
  qed
qed

subsection \<open>The calls made and the promises kept\<close>

lemma callKey_fetchCall:
  "callKey (fetchCall d (fetchParams env req e m)) = uniqueKey env e"
  by (simp add: callKey_def fetchCall_def fetchParams_def uniqueKey_def)

lemma issuedFor_snoc: "issuedFor env req d es c \<Longrightarrow> issuedFor env req d (es @ [e]) c"
  by (auto simp: issuedFor_def)

lemma inv_calls:
  "\<forall>e\<in>set es. models e \<noteq> None \<Longrightarrow>
     \<exists>cs. fetchCalls (loopState env req d es (initState mc0 calls0)) = calls0 @ cs \<and>
          map callKey cs = fetchKeys env es \<and>
          (\<forall>c\<in>set cs. issuedFor env req d es c)"
proof (induction es rule: rev_induct)
  case Nil
  show ?case by (simp add: initState_def)
next
  case (snoc e es)
  then obtain m where m: "models e = Some m" by auto
  from snoc have ok: "\<forall>e\<in>set es. models e \<noteq> None" by simp
  let ?S = "loopState env req d es (initState mc0 calls0)"
  from snoc.IH [OF ok] obtain cs where cs: "fetchCalls ?S = calls0 @ cs"
    "map callKey cs = fetchKeys env es" "\<forall>c\<in>set cs. issuedFor env req d es c"
    by blast
  have keys: "map fst (fetchPromisesMap ?S) = fetchKeys env es" using ok by (rule inv_keys)
  have none: "map_of (fetchPromisesMap ?S) k' = None \<longleftrightarrow> k' \<notin> set (fetchKeys env es)" for k'
    using keys by (metis map_of_eq_None_iff set_map)
  have old: "\<forall>c\<in>set cs. issuedFor env req d (es @ [e]) c"
    using cs(3) by (simp add: issuedFor_snoc)
  show ?case
  proof (cases "requiresFetch env e m \<and> uniqueKey env e \<notin> set (fetchKeys env es)")
    case True
    let ?c = "fetchCall d (fetchParams env req e m)"
    have new: "issuedFor env req d (es @ [e]) ?c"
      using True m by (auto simp: issuedFor_def)
    have 1: "fetchCalls (loopState env req d (es @ [e]) (initState mc0 calls0)) = calls0 @ (cs @ [?c])"
      using True by (simp add: loopState_snoc [OF ok m] step_fetchCalls none cs(1))
    have 2: "map callKey (cs @ [?c]) = fetchKeys env (es @ [e])"
      using True by (simp add: cs(2) callKey_fetchCall fetchKeys_snoc needsFetch_Some [OF m])
    have 3: "\<forall>c\<in>set (cs @ [?c]). issuedFor env req d (es @ [e]) c"
      using old new by simp
    from 1 2 3 show ?thesis by blast
  next
    case False
    have 1: "fetchCalls (loopState env req d (es @ [e]) (initState mc0 calls0)) = calls0 @ cs"
      using False by (auto simp: loopState_snoc [OF ok m] step_fetchCalls none cs(1))
    have 2: "map callKey cs = fetchKeys env (es @ [e])"
      using False by (auto simp: cs(2) fetchKeys_snoc needsFetch_Some [OF m])
    from 1 2 old show ?thesis by blast
  qed
qed

lemma map_filter_cong_set:
  "(\<And>x. x \<in> set xs \<Longrightarrow> f x = g x) \<Longrightarrow> List.map_filter f xs = List.map_filter g xs"
proof (induction xs)
  case Nil
  show ?case by simp
next
  case (Cons a xs)
  have "List.map_filter f xs = List.map_filter g xs"
    by (rule Cons.IH) (simp add: Cons.prems)
  moreover have "f a = g a" by (simp add: Cons.prems)
  ultimately show ?case by (simp split: option.splits)
qed

lemma map_filter_map_of:
  "distinct (map fst xs) \<Longrightarrow> List.map_filter (map_of xs) (map fst xs) = map snd xs"
proof (induction xs)
  case Nil
  show ?case by simp
next
  case (Cons x xs)
  obtain k v where x: "x = (k, v)" by (cases x)
  from Cons.prems x have k: "k \<notin> fst ` set xs" and d: "distinct (map fst xs)" by auto
  have same: "List.map_filter (map_of (x # xs)) (map fst xs) = List.map_filter (map_of xs) (map fst xs)"
  proof (rule map_filter_cong_set)
    fix a assume "a \<in> set (map fst xs)"
    with k have "a \<noteq> k" by auto
    then show "map_of (x # xs) a = map_of xs a" by (simp add: x)
  qed
  have "List.map_filter (map_of (x # xs)) (map fst (x # xs))
          = v # List.map_filter (map_of (x # xs)) (map fst xs)"
    by (simp add: x)
  also have "\<dots> = v # map snd xs"
    unfolding same Cons.IH [OF d] ..
  finally have all: "List.map_filter (map_of (x # xs)) (map fst (x # xs)) = v # map snd xs" .
  show ?case unfolding all by (simp add: x)
qed

lemma inv_outcomes:
  assumes ok: "\<forall>e\<in>set es. models e \<noteq> None"
  shows "map snd (fetchPromisesMap (loopState env req d es (initState mc0 calls0)))
           = promisesKept env req d es"
proof -
  let ?xs = "fetchPromisesMap (loopState env req d es (initState mc0 calls0))"
  have keys: "map fst ?xs = fetchKeys env es" using ok by (rule inv_keys)
  have "map_of ?xs = promiseFor env req d es"
    by (rule ext) (rule inv_outcome [OF ok])
  moreover have "distinct (map fst ?xs)" by (simp add: keys)
  ultimately show ?thesis
    using map_filter_map_of [of ?xs] by (simp add: promisesKept_def keys)
qed

subsection \<open>Inherited keys\<close>

lemma endpointStep_plain:
  assumes "\<not> (requiresFetch env e m \<and> uniqueKey env e \<in> set objectPrototypeKeys)"
  shows "endpointStep env req d e m s = Inr (plainStep env req d e m s)"
proof (cases "requiresFetch env e m")
  case False
  then show ?thesis by (simp add: endpointStep_def plainStep_def Let_def)
next
  case True
  with assms have k: "uniqueKey env e \<notin> set objectPrototypeKeys" by simp
  have g: "getProperty own (uniqueKey env e) =
      (case own (uniqueKey env e) of Some v \<Rightarrow> Own v | None \<Rightarrow> Missing)" for own :: "string \<rightharpoonup> 'b"
    by (simp add: getProperty_def k)
  show ?thesis
    by (simp add: endpointStep_def plainStep_def Let_def True g split: option.splits)
qed


lemma endpointLoop_loopState:
  "\<forall>e\<in>set es. models e \<noteq> None \<Longrightarrow> safeKeys env es \<Longrightarrow>
     endpointLoop env req d es s = (None, loopState env req d es s)"
proof (induction es arbitrary: s)
  case Nil
  show ?case by simp
next
  case (Cons e es)
  then obtain m where m: "models e = Some m" by auto
  from Cons.prems have ok: "\<forall>e\<in>set es. models e \<noteq> None" and safe: "safeKeys env es"
    by (simp_all add: safeKeys_def)
  from Cons.prems(2) have "\<not> (requiresFetch env e m \<and> uniqueKey env e \<in> set objectPrototypeKeys)"
    by (simp add: safeKeys_def needsFetch_Some [OF m])
  then have step: "endpointStep env req d e m s = Inr (plainStep env req d e m s)"
    by (rule endpointStep_plain)
  have "endpointLoop env req d (e # es) s = endpointLoop env req d es (plainStep env req d e m s)"
    by (simp add: m step)
  also have "\<dots> = (None, loopState env req d es (plainStep env req d e m s))"
    using ok safe by (rule Cons.IH)
  also have "loopState env req d es (plainStep env req d e m s) = loopState env req d (e # es) s"
    by (simp add: loopState_def m)
  finally show ?case .
qed

lemma safeKeys_fetchKeys:
  "safeKeys env es \<Longrightarrow> k \<in> set (fetchKeys env es) \<Longrightarrow> k \<notin> set objectPrototypeKeys"
  by (auto simp: safeKeys_def set_fetchKeys)


subsection \<open>The function in closed form\<close>

lemma eligible_models: "eligible e \<Longrightarrow> models e \<noteq> None"
  by (auto simp: eligible_def split: option.splits)

lemma find_Some_set: "find P xs = Some x \<Longrightarrow> x \<in> set xs \<and> P x"
  by (induction xs) (auto split: if_splits)

lemma lastNamed_Some: "lastNamed env es n = Some e \<Longrightarrow> e \<in> set es \<and> nname env e = n"
  using find_Some_set [of "\<lambda>e. nname env e = n" "rev es" e] by (simp add: lastNamed_def)

lemma lastNamed_exists: "e \<in> set es \<Longrightarrow> \<exists>e'. lastNamed env es (nname env e) = Some e'"
  by (cases "lastNamed env es (nname env e)") (auto simp: lastNamed_def find_None_iff)

lemma groups_resolvable:
  assumes ok: "\<forall>e\<in>set es. models e \<noteq> None"
  shows "resolvable (lastNamed env es) (groupNames env es k)"
proof (unfold resolvable_def, rule ballI)
  fix n assume "n \<in> set (groupNames env es k)"
  then obtain e where e: "e \<in> set es" "n = nname env e"
    by (auto simp: groupNames_def)
  from lastNamed_exists [OF e(1)] obtain e' where e': "lastNamed env es n = Some e'"
    by (auto simp: e(2))
  with lastNamed_Some have "e' \<in> set es" by blast
  with ok obtain m where "models e' = Some m" by auto
  with e' show "\<exists>e m. lastNamed env es n = Some e \<and> models e = Some m" by blast
qed

lemma groupNames_nonempty: "k \<in> set (fetchKeys env es) \<Longrightarrow> groupNames env es k \<noteq> []"
  by (auto simp: set_fetchKeys groupNames_def filter_empty_conv)

lemma length_promisesKept:
  "length (promisesKept env req d es) = length (fetchKeys env es)"
proof -
  have "\<forall>k\<in>set (fetchKeys env es). promiseFor env req d es k \<noteq> None"
    by (simp add: promiseFor_None_iff)
  then have "filter (\<lambda>k. promiseFor env req d es k \<noteq> None) (fetchKeys env es) = fetchKeys env es"
    by (simp add: filter_id_conv)
  then show ?thesis by (simp add: promisesKept_def map_filter_def)
qed

lemma loadConfigModels_resolved_kept:
  assumes cfg: "getAppConfig env (role (user req)) = Inr (Some appConfig)"
    and arr: "customValue appConfig = CustomArray configured"
    and safe: "safeKeys env (filter eligible configured)"
    and res: "promisesKept env req d (filter eligible configured) = map Inr results"
  shows "\<exists>cs. loadConfigModels env req d calls =
           (Inr (shape d (resolvedModels env d (azureModels env appConfig)
                            (filter eligible configured) results)
                         (mergedDetails d results)),
            calls @ cs) \<and>
          map callKey cs = fetchKeys env (filter eligible configured) \<and>
          (\<forall>c\<in>set cs. issuedFor env req d (filter eligible configured) c)"
proof -
  let ?es = "filter eligible configured"
  let ?mc0 = "azureModels env appConfig"
  let ?S = "loopState env req d ?es (initState ?mc0 calls)"
  have ok: "\<forall>e\<in>set ?es. models e \<noteq> None" by (simp add: eligible_models)
  have loop: "endpointLoop env req d ?es (initState ?mc0 calls) = (None, ?S)"
    using ok safe by (rule endpointLoop_loopState)
  have keys: "map fst (fetchPromisesMap ?S) = fetchKeys env ?es" using ok by (rule inv_keys)
  have vals: "map snd (fetchPromisesMap ?S) = map Inr results"
    using inv_outcomes [OF ok] res by simp
  have pa: "promiseAll (map snd (fetchPromisesMap ?S)) = Inr results"
    by (simp add: vals promiseAll_map_Inr)
  have groups: "uniqueKeyToEndpointsMap ?S = groupsOf env ?es"
    by (rule ext) (simp add: inv_groups [OF ok] groupsOf_def)
  have em: "endpointsMap ?S = lastNamed env ?es"
    by (rule ext) (simp add: inv_endpointsMap [OF ok])
  have pre: "\<forall>kd\<in>set (zip (fetchKeys env ?es) results).
      \<exists>ns. groupsOf env ?es (fst kd) = Some ns \<and> ns \<noteq> [] \<and> resolvable (lastNamed env ?es) ns"
  proof
    fix kd assume kd: "kd \<in> set (zip (fetchKeys env ?es) results)"
    have "(fst kd, snd kd) \<in> set (zip (fetchKeys env ?es) results)"
      using kd by simp
    then have "fst kd \<in> set (fetchKeys env ?es)"
      by (rule set_zip_leftD)
    then have "groupNames env ?es (fst kd) \<noteq> []" by (rule groupNames_nonempty)
    then show "\<exists>ns. groupsOf env ?es (fst kd) = Some ns \<and> ns \<noteq> [] \<and> resolvable (lastNamed env ?es) ns"
      by (simp add: groupsOf_def groups_resolvable [OF ok])
  qed
  have mc: "(\<lambda>n. case find (inGroup (groupsOf env ?es) n) (rev (zip (fetchKeys env ?es) results)) of
                    None \<Rightarrow> modelsConfig ?S n
                  | Some kd \<Rightarrow> Some (assignedFor d (snd kd) (lastNamed env ?es) n))
            = resolvedModels env d ?mc0 ?es results"
    by (rule ext) (simp add: resolvedModels_def inv_modelsConfig [OF ok] cong: option.case_cong)
  have len: "length results = length (fetchKeys env ?es)"
    using length_promisesKept [of env req d ?es] res by simp
  have det: "foldl (++) Map.empty (map (fetchedDetails d \<circ> snd) (zip (fetchKeys env ?es) results))
      = mergedDetails d results"
    by (simp add: mergedDetails_def len map_snd_zip flip: map_map)
  have rl: "resultsLoop d (groupsOf env ?es) (lastNamed env ?es)
              (zip (fetchKeys env ?es) results) (modelsConfig ?S, Map.empty)
            = Inr (resolvedModels env d ?mc0 ?es results, mergedDetails d results)"
    unfolding resultsLoop_eq [OF pre] mc det ..
  from inv_calls [OF ok, of env req d ?mc0 calls]
  obtain cs where cs: "fetchCalls ?S = calls @ cs" "map callKey cs = fetchKeys env ?es"
    "\<forall>c\<in>set cs. issuedFor env req d ?es c" by blast
  have "loadConfigModels env req d calls =
          (Inr (shape d (resolvedModels env d ?mc0 ?es results) (mergedDetails d results)),
           calls @ cs)"
    unfolding loadConfigModels_def Let_def initState_def [symmetric]
    by (simp add: cfg arr loop pa keys groups em rl cs(1))
  with cs(2,3) show ?thesis by blast
qed

subsection \<open>The list of one endpoint\<close>

lemma assignedList_fetchedList:
  "assignedList d dat m =
     (if fetchedList d dat = [] then defaultOrEmpty m else fetchedList d dat)"
  by (cases d; cases dat)
     (simp_all add: assignedList_def fetchedList_def split: option.splits)

lemma map_filter_all_Some:
  "\<forall>k\<in>set ks. f k \<noteq> None \<Longrightarrow> map f ks = map Some (List.map_filter f ks)"
  by (induction ks) (auto split: option.splits)

lemma lastNamed_unique:
  assumes "e \<in> set es" and "nameUnique env es e"
  shows "lastNamed env es (nname env e) = Some e"
proof -
  from lastNamed_exists [OF assms(1)] obtain e' where e': "lastNamed env es (nname env e) = Some e'"
    by blast
  from lastNamed_Some [OF e'] assms(2) have "e = e'" unfolding nameUnique_def by blast
  with e' show ?thesis by simp
qed

lemma groupNames_unique:
  assumes e: "e \<in> set es" and u: "nameUnique env es e"
  shows "nname env e \<in> set (groupNames env es k) \<longleftrightarrow> needsFetch env e \<and> uniqueKey env e = k"
proof
  assume "nname env e \<in> set (groupNames env es k)"
  then obtain e' where e': "e' \<in> set es" "needsFetch env e'" "uniqueKey env e' = k"
    "nname env e' = nname env e"
    unfolding groupNames_def by auto
  from u e'(1,4) have "e = e'" unfolding nameUnique_def by blast
  then show "needsFetch env e \<and> uniqueKey env e = k" using e'(2,3) by blast
next
  assume "needsFetch env e \<and> uniqueKey env e = k"
  with e have "e \<in> set (filter (\<lambda>e. needsFetch env e \<and> uniqueKey env e = k) es)" by simp
  then show "nname env e \<in> set (groupNames env es k)"
    unfolding groupNames_def by (metis imageI set_map)
qed

lemma inGroup_unique:
  assumes e: "e \<in> set es" and u: "nameUnique env es e"
  shows "inGroup (groupsOf env es) (nname env e) kd \<longleftrightarrow> needsFetch env e \<and> fst kd = uniqueKey env e"
proof (cases "groupNames env es (fst kd) = []")
  case True
  then have "nname env e \<notin> set (groupNames env es (fst kd))" by simp
  then have "\<not> (needsFetch env e \<and> uniqueKey env e = fst kd)"
    unfolding groupNames_unique [OF e u] .
  moreover have "\<not> inGroup (groupsOf env es) (nname env e) kd"
    by (simp add: inGroup_def groupsOf_def True)
  ultimately show ?thesis by metis
next
  case False
  then have "inGroup (groupsOf env es) (nname env e) kd
      \<longleftrightarrow> nname env e \<in> set (groupNames env es (fst kd))"
    by (simp add: inGroup_def groupsOf_def)
  also have "\<dots> \<longleftrightarrow> needsFetch env e \<and> uniqueKey env e = fst kd"
    by (rule groupNames_unique [OF e u])
  finally show ?thesis by metis
qed

lemma outcome_in_zip:
  assumes res: "promisesKept env req d es = map Inr results"
    and out: "promiseFor env req d es k = Some (Inr dat)"
  shows "(k, dat) \<in> set (zip (fetchKeys env es) results)"
proof -
  let ?ks = "fetchKeys env es"
  have all: "\<forall>k\<in>set ?ks. promiseFor env req d es k \<noteq> None"
    by (simp add: promiseFor_None_iff)
  have m: "map (promiseFor env req d es) ?ks = map Some (map Inr results)"
    using map_filter_all_Some [OF all] res by (simp add: promisesKept_def)
  have len: "length results = length ?ks"
    using arg_cong [OF m, of length] by simp
  from out have "k \<in> set ?ks"
    using promiseFor_None_iff [of env req d es k] by auto
  then obtain i where i: "i < length ?ks" "?ks ! i = k" by (auto simp: in_set_conv_nth)
  have "map (promiseFor env req d es) ?ks ! i = map Some (map Inr results) ! i"
    by (simp add: m)
  with i len out have "results ! i = dat" by simp
  with i len show ?thesis by (auto simp: in_set_zip)
qed

lemma resolved_fetch_kept:
  assumes e: "e \<in> set es" and m: "models e = Some m" and u: "nameUnique env es e"
    and res: "promisesKept env req d es = map Inr results"
    and rf: "requiresFetch env e m"
    and out: "promiseFor env req d es (uniqueKey env e) = Some (Inr dat)"
  shows "resolvedModels env d mc0 es results (nname env e) = Some (assignedList d dat m)"
proof -
  let ?kds = "zip (fetchKeys env es) results"
  let ?P = "inGroup (groupsOf env es) (nname env e)"
  have nf: "needsFetch env e" using rf by (simp add: needsFetch_Some [OF m])
  have mem: "(uniqueKey env e, dat) \<in> set (rev ?kds)"
    using outcome_in_zip [OF res out] by simp
  have P: "?P (uniqueKey env e, dat)"
    by (simp add: inGroup_unique [OF e u] nf)
  have dk: "distinct (map fst ?kds)"
    by (simp add: map_fst_zip_take distinct_take)
  have uniq: "(uniqueKey env e, dat) = y" if y: "y \<in> set (rev ?kds)" and Py: "?P y" for y
  proof -
    from Py have k: "fst y = uniqueKey env e" by (simp add: inGroup_unique [OF e u])
    from y have "(uniqueKey env e, snd y) \<in> set ?kds" by (simp add: k [symmetric])
    moreover from mem have "(uniqueKey env e, dat) \<in> set ?kds" by simp
    ultimately have "snd y = dat" using dk by (meson eq_key_imp_eq_value)
    with k show ?thesis by (simp add: prod_eq_iff)
  qed
  have "find ?P (rev ?kds) = Some (uniqueKey env e, dat)"
    using mem P uniq by (rule find_unique)
  then show ?thesis
    by (simp add: resolvedModels_def assignedFor_def lastNamed_unique [OF e u] m)
qed


subsection \<open>Accumulated mappings\<close>

lemma foldl_map_add_last:
  "j < length ms \<Longrightarrow> (ms ! j) x = Some v \<Longrightarrow>
     (\<And>i. j < i \<Longrightarrow> i < length ms \<Longrightarrow> (ms ! i) x = None) \<Longrightarrow>
     foldl (++) m0 ms x = Some v"
proof (induction ms rule: rev_induct)
  case Nil
  then show ?case by simp
next
  case (snoc a ms)
  show ?case
  proof (cases "j = length ms")
    case True
    with snoc.prems(2) show ?thesis by (simp add: map_add_Some_iff)
  next
    case False
    with snoc.prems(1) have j: "j < length ms" by simp
    have last: "a x = None"
      using snoc.prems(3) [of "length ms"] j by simp
    have "foldl (++) m0 ms x = Some v"
    proof (rule snoc.IH [OF j])
      show "(ms ! j) x = Some v" using snoc.prems(2) j by (simp add: nth_append)
    next
      fix i assume "j < i" "i < length ms"
      then show "(ms ! i) x = None" using snoc.prems(3) [of i] by (simp add: nth_append)
    qed
    with last show ?thesis by (simp add: map_add_Some_iff)
  qed
qed

lemma foldl_map_add_none:
  "(\<And>i. i < length ms \<Longrightarrow> (ms ! i) x = None) \<Longrightarrow> foldl (++) m0 ms x = m0 x"
proof (induction ms rule: rev_induct)
  case Nil
  then show ?case by simp
next
  case (snoc a ms)
  have last: "a x = None" using snoc.prems [of "length ms"] by simp
  have "foldl (++) m0 ms x = m0 x"
  proof (rule snoc.IH)
    fix i assume "i < length ms"
    then show "(ms ! i) x = None" using snoc.prems [of i] by (simp add: nth_append)
  qed
  with last show ?case by (simp add: map_add_dom_app_simps domIff)
qed

subsection \<open>The form and the parts of the result\<close>

text \<open>The result of \<open>loadConfigModels\<close> has the form of the requested mode.\<close>

lemma loadConfigModels_shape:
  assumes "fst (loadConfigModels env req d calls) = Inr r"
  shows "\<exists>mc det. r = shape d mc det"
proof (cases "getAppConfig env (role (user req))")
  case (Inl e)
  with assms show ?thesis by (simp add: loadConfigModels_def)
next
  case (Inr cfg)
  show ?thesis
  proof (cases cfg)
    case None
    with Inr assms show ?thesis by (auto simp: loadConfigModels_def)
  next
    case (Some appConfig)
    show ?thesis
    proof (cases "customValue appConfig")
      case NotAnArray
      with Inr Some assms show ?thesis by (auto simp: loadConfigModels_def)
    next
      case (CustomArray configured)
      with Inr Some assms show ?thesis
        by (auto simp: loadConfigModels_def Let_def
            split: prod.splits option.splits sum.splits)
    qed
  qed
qed

subsection \<open>Outcomes and promises\<close>

lemma fetchOutcome_None_iff:
  "fetchOutcome env req d es k = None \<longleftrightarrow> k \<notin> set (fetchKeys env es)"
  using promiseFor_None_iff [of env req d es k]
  by (cases "promiseFor env req d es k") (simp_all add: fetchOutcome_def)

lemma fetchOutcome_safe:
  assumes "safeKeys env es"
  shows "fetchOutcome env req d es k = promiseFor env req d es k"
proof (cases "promiseFor env req d es k")
  case None
  then show ?thesis by (simp add: fetchOutcome_def)
next
  case (Some p)
  then have "k \<in> set (fetchKeys env es)"
    using promiseFor_None_iff [of env req d es k] by simp
  with assms have "k \<notin> set objectPrototypeKeys" by (rule safeKeys_fetchKeys)
  with Some show ?thesis by (simp add: fetchOutcome_def)
qed

lemma fetchOutcomes_safe:
  "safeKeys env es \<Longrightarrow> fetchOutcomes env req d es = promisesKept env req d es"
  unfolding fetchOutcomes_def promisesKept_def
  by (rule map_filter_cong_set) (rule fetchOutcome_safe)

lemma map_filter_mem:
  "k \<in> set ks \<Longrightarrow> f k = Some v \<Longrightarrow> v \<in> set (List.map_filter f ks)"
  by (induction ks) (auto split: option.splits)

lemma unsafe_outcome:
  assumes "\<not> safeKeys env es"
  shows "Inl pushRaises \<in> set (fetchOutcomes env req d es)"
proof -
  from assms obtain b where b: "b \<in> set es" "needsFetch env b"
    "uniqueKey env b \<in> set objectPrototypeKeys"
    by (auto simp: safeKeys_def)
  then have k: "uniqueKey env b \<in> set (fetchKeys env es)"
    by (auto simp: set_fetchKeys)
  then obtain p where "promiseFor env req d es (uniqueKey env b) = Some p"
    using promiseFor_None_iff [of env req d es "uniqueKey env b"] by auto
  then have "fetchOutcome env req d es (uniqueKey env b) = Some (Inl pushRaises)"
    by (simp add: fetchOutcome_def b(3))
  with k show ?thesis
    unfolding fetchOutcomes_def by (rule map_filter_mem)
qed

lemma resolves_safe:
  assumes "fetchOutcomes env req d es = map Inr results"
  shows "safeKeys env es"
proof (rule ccontr)
  assume "\<not> safeKeys env es"
  then have "Inl pushRaises \<in> set (fetchOutcomes env req d es)" by (rule unsafe_outcome)
  with assms show False by auto
qed

lemma loadConfigModels_resolved:
  assumes cfg: "getAppConfig env (role (user req)) = Inr (Some appConfig)"
    and arr: "customValue appConfig = CustomArray configured"
    and res: "fetchOutcomes env req d (filter eligible configured) = map Inr results"
  shows "\<exists>cs. loadConfigModels env req d calls =
           (Inr (shape d (resolvedModels env d (azureModels env appConfig)
                            (filter eligible configured) results)
                         (mergedDetails d results)),
            calls @ cs) \<and>
          map callKey cs = fetchKeys env (filter eligible configured) \<and>
          (\<forall>c\<in>set cs. issuedFor env req d (filter eligible configured) c)"
proof -
  have safe: "safeKeys env (filter eligible configured)" using res by (rule resolves_safe)
  have kept: "promisesKept env req d (filter eligible configured) = map Inr results"
    using res by (simp add: fetchOutcomes_safe [OF safe])
  from cfg arr safe kept show ?thesis by (rule loadConfigModels_resolved_kept)
qed

lemma resolved_fetch:
  assumes e: "e \<in> set es" and m: "models e = Some m" and u: "nameUnique env es e"
    and res: "fetchOutcomes env req d es = map Inr results"
    and rf: "requiresFetch env e m"
    and out: "fetchOutcome env req d es (uniqueKey env e) = Some (Inr dat)"
  shows "resolvedModels env d mc0 es results (nname env e) = Some (assignedList d dat m)"
proof -
  have safe: "safeKeys env es" using res by (rule resolves_safe)
  have kept: "promisesKept env req d es = map Inr results"
    using res by (simp add: fetchOutcomes_safe [OF safe])
  have out': "promiseFor env req d es (uniqueKey env e) = Some (Inr dat)"
    using out by (simp add: fetchOutcome_safe [OF safe])
  from e m u kept rf out' show ?thesis by (rule resolved_fetch_kept)
qed

lemma resolvedList_loadConfigModels:
  assumes cfg: "getAppConfig env (role (user req)) = Inr (Some appConfig)"
    and arr: "customValue appConfig = CustomArray configured"
    and res: "fetchOutcomes env req d (filter eligible configured) = map Inr results"
  shows "resolvedList (fst (loadConfigModels env req d calls)) n =
           resolvedModels env d (azureModels env appConfig) (filter eligible configured) results n"
proof -
  from loadConfigModels_resolved [OF cfg arr res, of calls]
  obtain cs where "loadConfigModels env req d calls =
      (Inr (shape d (resolvedModels env d (azureModels env appConfig)
                       (filter eligible configured) results)
                    (mergedDetails d results)), calls @ cs)"
    by blast
  then show ?thesis by (simp add: resolvedList_def shape_def)
qed

lemma resolvedDetails_loadConfigModels:
  assumes cfg: "getAppConfig env (role (user req)) = Inr (Some appConfig)"
    and arr: "customValue appConfig = CustomArray configured"
    and res: "fetchOutcomes env req True (filter eligible configured) = map Inr results"
  shows "resolvedDetails (fst (loadConfigModels env req True calls)) =
           Some (mergedDetails True results)"
proof -
  from loadConfigModels_resolved [OF cfg arr res, of calls]
  obtain cs where "loadConfigModels env req True calls =
      (Inr (shape True (resolvedModels env True (azureModels env appConfig)
                       (filter eligible configured) results)
                    (mergedDetails True results)), calls @ cs)"
    by blast
  then show ?thesis by (simp add: resolvedDetails_def shape_def)
qed

section \<open>Properties\<close>

subsection \<open>One fetch for each key\<close>


lemma loadConfigModels_calls_safe:
  assumes cfg: "getAppConfig env (role (user req)) = Inr (Some appConfig)"
    and arr: "customValue appConfig = CustomArray configured"
    and safe: "safeKeys env (filter eligible configured)"
  shows "\<exists>cs. snd (loadConfigModels env req d calls) = calls @ cs \<and>
          map callKey cs = fetchKeys env (filter eligible configured) \<and>
          (\<forall>c\<in>set cs. issuedFor env req d (filter eligible configured) c)"
proof -
  let ?es = "filter eligible configured"
  let ?mc0 = "azureModels env appConfig"
  let ?S = "loopState env req d ?es (initState ?mc0 calls)"
  have ok: "\<forall>e\<in>set ?es. models e \<noteq> None" by (simp add: eligible_models)
  have loop: "endpointLoop env req d ?es (initState ?mc0 calls) = (None, ?S)"
    using ok safe by (rule endpointLoop_loopState)
  have "snd (loadConfigModels env req d calls) = fetchCalls ?S"
    unfolding loadConfigModels_def Let_def initState_def [symmetric]
    by (simp add: cfg arr loop split: sum.splits prod.splits)
  with inv_calls [OF ok, of env req d ?mc0 calls] show ?thesis by simp
qed



text \<open>
  When no key names an inherited property, the calls are as many as the distinct keys
  of the fetch-requiring endpoints, one for each key in first-seen order, whatever the
  fetches settle to.
\<close>

lemma one_fetch_per_safe_key:
  assumes cfg: "getAppConfig env (role (user req)) = Inr (Some appConfig)"
    and arr: "customValue appConfig = CustomArray configured"
    and safe: "safeKeys env (filter eligible configured)"
  shows "\<exists>cs. snd (loadConfigModels env req includeDetails calls) = calls @ cs \<and>
          length cs = card (uniqueKey env ` {e \<in> set (filter eligible configured). needsFetch env e}) \<and>
          map callKey cs = fetchKeys env (filter eligible configured) \<and>
          distinct (map callKey cs)"
proof -
  let ?es = "filter eligible configured"
  from loadConfigModels_calls_safe [OF cfg arr safe, of includeDetails calls]
  obtain cs where cs: "snd (loadConfigModels env req includeDetails calls) = calls @ cs"
    "map callKey cs = fetchKeys env ?es"
    by blast
  have "length cs = length (fetchKeys env ?es)"
    using arg_cong [OF cs(2), of length] by simp
  also have "\<dots> = card (set (fetchKeys env ?es))"
    by (simp add: distinct_card)
  finally have "length cs = card (uniqueKey env ` {e \<in> set ?es. needsFetch env e})"
    by (simp add: set_fetchKeys)
  with cs show ?thesis by (auto simp: cs(2))
qed

text \<open>
  C1. The claim fails on the code where a key names a property that the maps inherit.
  The endpoint below is eligible and requires a fetch; its resolved baseURL is
  \<open>__proto\<close> and its resolved apiKey is empty, so its key is \<open>__proto__\<close>. The read
  of line 80 finds the prototype object, no fetch is made, and line 92 raises: there is
  one distinct key and no call.
\<close>

theorem inherited_key_not_fetched:
  "eligible inheritedKeyEndpoint \<and>
   needsFetch inheritedKeyEnv inheritedKeyEndpoint \<and>
   fetchKeys inheritedKeyEnv (customEndpoints inheritedKeyEnv (exampleRequest None))
     = [''__proto__''] \<and>
   loadConfigModels inheritedKeyEnv (exampleRequest None) False [] = (Inl pushRaises, [])"
  by (simp add: code_defs example_defs notion_defs customEndpoints_def inheritedKeyEnv_def
      inheritedKeyEndpoint_def trim_def)

subsection \<open>Endpoints that share a key\<close>

text \<open>
  C2 as stated fails: \<open>A\<close> and \<open>B\<close> share baseURL and apiKey, the one fetch
  returns the empty list, and each endpoint falls back to its own default, so the two
  lists differ.
\<close>

theorem shared_fetch_identical_list_counterexample:
  "resolvedList
     (fst (loadConfigModels
        (exampleEnv (Some (sharedKeyConfig (Some [MStr ''a1'']) (Some [MStr ''b1''])))
           (\<lambda>p. Inr (FList [])))
        (exampleRequest None) False [])) ''A'' = Some [MStr ''a1''] \<and>
   resolvedList
     (fst (loadConfigModels
        (exampleEnv (Some (sharedKeyConfig (Some [MStr ''a1'']) (Some [MStr ''b1''])))
           (\<lambda>p. Inr (FList [])))
        (exampleRequest None) False [])) ''B'' = Some [MStr ''b1''] \<and>
   length (snd (loadConfigModels
        (exampleEnv (Some (sharedKeyConfig (Some [MStr ''a1'']) (Some [MStr ''b1''])))
           (\<lambda>p. Inr (FList [])))
        (exampleRequest None) False [])) = 1"
  by (simp add: code_defs example_defs sharedKeyConfig_def)

lemma count_distinct_key:
  assumes "distinct (map f xs)" and "k \<in> f ` set xs"
  shows "length (filter (\<lambda>x. f x = k) xs) = 1"
  using assms
proof (induction xs)
  case Nil
  then show ?case by simp
next
  case (Cons a xs)
  show ?case
  proof (cases "f a = k")
    case True
    with Cons.prems(1) have "k \<notin> f ` set xs" by simp
    then have "filter (\<lambda>x. f x = k) xs = []"
      unfolding filter_empty_conv by blast
    with True show ?thesis by simp
  next
    case False
    with Cons.prems have "distinct (map f xs)" "k \<in> f ` set xs" by auto
    with Cons.IH False show ?thesis by simp
  qed
qed

text \<open>
  C2 (amended). Two eligible endpoints that require a fetch and have the same resolved
  baseURL and apiKey are served by one fetch call. When every fetch resolves, each of
  the two names is assigned the list fetched by that call if it is not empty, and its
  own \<open>models.default\<close> (or the empty list) if it is empty or absent. The hypothesis
  on the outcomes leaves out a key that names an inherited property, whose outcome is
  the error of line 92.
\<close>

theorem shared_fetch_shared_list:
  assumes cfg: "getAppConfig env (role (user req)) = Inr (Some appConfig)"
    and arr: "customValue appConfig = CustomArray configured"
    and a: "eA \<in> set configured" "eligible eA" "models eA = Some mA"
    and b: "eB \<in> set configured" "eligible eB" "models eB = Some mB"
    and uA: "nameUnique env (filter eligible configured) eA"
    and uB: "nameUnique env (filter eligible configured) eB"
    and rfA: "requiresFetch env eA mA"
    and rfB: "requiresFetch env eB mB"
    and url: "extractEnvVariable env (baseURL eA) = extractEnvVariable env (baseURL eB)"
    and key: "extractEnvVariable env (apiKey eA) = extractEnvVariable env (apiKey eB)"
    and res: "fetchOutcomes env req includeDetails (filter eligible configured) = map Inr results"
    and out: "fetchOutcome env req includeDetails (filter eligible configured) (uniqueKey env eA)
                = Some (Inr data)"
  shows "resolvedList (fst (loadConfigModels env req includeDetails calls)) (nname env eA)
           = Some (if fetchedList includeDetails data = [] then defaultOrEmpty mA
                   else fetchedList includeDetails data) \<and>
         resolvedList (fst (loadConfigModels env req includeDetails calls)) (nname env eB)
           = Some (if fetchedList includeDetails data = [] then defaultOrEmpty mB
                   else fetchedList includeDetails data) \<and>
         length (filter (\<lambda>c. callKey c = uniqueKey env eA)
                   (drop (length calls) (snd (loadConfigModels env req includeDetails calls)))) = 1"
proof -
  let ?es = "filter eligible configured"
  have memA: "eA \<in> set ?es" and memB: "eB \<in> set ?es" using a b by simp_all
  have same: "uniqueKey env eB = uniqueKey env eA" by (simp add: uniqueKey_def url key)
  have outB: "fetchOutcome env req includeDetails ?es (uniqueKey env eB) = Some (Inr data)"
    using out by (simp add: same)
  have A: "resolvedList (fst (loadConfigModels env req includeDetails calls)) (nname env eA)
      = Some (assignedList includeDetails data mA)"
    unfolding resolvedList_loadConfigModels [OF cfg arr res]
    using memA a(3) uA res rfA out by (rule resolved_fetch)
  have B: "resolvedList (fst (loadConfigModels env req includeDetails calls)) (nname env eB)
      = Some (assignedList includeDetails data mB)"
    unfolding resolvedList_loadConfigModels [OF cfg arr res]
    using memB b(3) uB res rfB outB by (rule resolved_fetch)
  have safe: "safeKeys env ?es" using res by (rule resolves_safe)
  from loadConfigModels_calls_safe [OF cfg arr safe, of includeDetails calls]
  obtain cs where cs: "snd (loadConfigModels env req includeDetails calls) = calls @ cs"
    "map callKey cs = fetchKeys env ?es" by blast
  have "uniqueKey env eA \<in> set (fetchKeys env ?es)"
    using memA rfA by (auto simp: set_fetchKeys needsFetch_Some [OF a(3)])
  then have "uniqueKey env eA \<in> callKey ` set cs"
    using arg_cong [OF cs(2), of set] by simp
  moreover have "distinct (map callKey cs)" by (simp add: cs(2))
  ultimately have "length (filter (\<lambda>c. callKey c = uniqueKey env eA) cs) = 1"
    by (intro count_distinct_key)
  with A B show ?thesis
    by (simp add: cs(1) assignedList_fetchedList)
qed

theorem shared_fetch_shared_list_witness:
  "resolvedList
     (fst (loadConfigModels
        (exampleEnv (Some (sharedKeyConfig None None))
           (\<lambda>p. Inr (FList [MStr ''m1'', MStr ''m2''])))
        (exampleRequest None) False [])) ''A'' = Some [MStr ''m1'', MStr ''m2''] \<and>
   resolvedList
     (fst (loadConfigModels
        (exampleEnv (Some (sharedKeyConfig None None))
           (\<lambda>p. Inr (FList [MStr ''m1'', MStr ''m2''])))
        (exampleRequest None) False [])) ''B'' = Some [MStr ''m1'', MStr ''m2''] \<and>
   length (filter (\<lambda>c. callKey c = ''https://x__K'')
     (snd (loadConfigModels
        (exampleEnv (Some (sharedKeyConfig None None))
           (\<lambda>p. Inr (FList [MStr ''m1'', MStr ''m2''])))
        (exampleRequest None) False []))) = 1"
  using shared_fetch_shared_list
    [of "exampleEnv (Some (sharedKeyConfig None None)) (\<lambda>p. Inr (FList [MStr ''m1'', MStr ''m2'']))"
        "exampleRequest None"
        "sharedKeyConfig None None"
        "[exampleEndpoint ''A'' ''https://x'' ''K'' True None,
          exampleEndpoint ''B'' ''https://x'' ''K'' True None]"
        "exampleEndpoint ''A'' ''https://x'' ''K'' True None"
        "exampleModels True None"
        "exampleEndpoint ''B'' ''https://x'' ''K'' True None"
        "exampleModels True None"
        False "[FList [MStr ''m1'', MStr ''m2'']]" "FList [MStr ''m1'', MStr ''m2'']" "[]"]
  by (simp add: example_defs notion_defs sharedKeyConfig_def)

subsection \<open>Fallback to the default list\<close>

text \<open>
  C3. When every fetch resolves, an eligible endpoint whose fetch was issued and came
  back with an empty or absent list has its \<open>models.default\<close> as final list, or the
  empty list without a default; a non-empty fetched list is the final list as it is.
  Endpoint names are unique after normalization.
\<close>

theorem empty_fetch_uses_default:
  assumes cfg: "getAppConfig env (role (user req)) = Inr (Some appConfig)"
    and arr: "customValue appConfig = CustomArray configured"
    and e: "e \<in> set configured" "eligible e" "models e = Some m"
    and u: "nameUnique env (filter eligible configured) e"
    and rf: "requiresFetch env e m"
    and res: "fetchOutcomes env req includeDetails (filter eligible configured) = map Inr results"
    and out: "fetchOutcome env req includeDetails (filter eligible configured) (uniqueKey env e)
                = Some (Inr data)"
  shows "resolvedList (fst (loadConfigModels env req includeDetails calls)) (nname env e) =
           Some (if fetchedList includeDetails data = []
                 then (case default_models m of None \<Rightarrow> [] | Some ds \<Rightarrow> ds)
                 else fetchedList includeDetails data)"
proof -
  have mem: "e \<in> set (filter eligible configured)" using e by simp
  have "resolvedList (fst (loadConfigModels env req includeDetails calls)) (nname env e)
      = Some (assignedList includeDetails data m)"
    unfolding resolvedList_loadConfigModels [OF cfg arr res]
    using mem e(3) u res rf out by (rule resolved_fetch)
  then show ?thesis
    by (simp add: assignedList_fetchedList defaultOrEmpty_def)
qed

theorem empty_fetch_uses_default_witness:
  "resolvedList
     (fst (loadConfigModels
        (exampleEnv (Some (exampleConfig [exampleEndpoint ''C'' ''https://x'' ''K'' True (Some [MStr ''d1''])]))
          (\<lambda>p. Inr (FList [])))
        (exampleRequest None) False [])) ''C''
     = Some [MStr ''d1'']"
  using empty_fetch_uses_default
    [of "exampleEnv (Some (exampleConfig [exampleEndpoint ''C'' ''https://x'' ''K'' True (Some [MStr ''d1''])]))
          (\<lambda>p. Inr (FList []))"
        "exampleRequest None"
        "exampleConfig [exampleEndpoint ''C'' ''https://x'' ''K'' True (Some [MStr ''d1''])]"
        "[exampleEndpoint ''C'' ''https://x'' ''K'' True (Some [MStr ''d1''])]"
        "exampleEndpoint ''C'' ''https://x'' ''K'' True (Some [MStr ''d1''])"
        "exampleModels True (Some [MStr ''d1''])"
        False "[FList []]" "FList []" "[]"]
  by (simp add: example_defs notion_defs)

subsection \<open>User-provided endpoints\<close>



subsection \<open>Structured default entries\<close>



subsection \<open>The cache\<close>

lemma loadModels_hit:
  "cache st (cacheKey env d) = Some v \<Longrightarrow> loadModels env req d st = (Inr v, st)"
  by (simp add: loadModels_def)

lemma getModelsConfig_hit:
  "cache st (cacheKey env d) = Some v \<Longrightarrow> getModelsConfig env req d st = (Inr v, st)"
  by (simp add: getModelsConfig_def)

lemma loadModels_miss_stores:
  assumes miss: "cache st (cacheKey env d) = None"
    and run: "loadModels env req d st = (Inr v, st1)"
  shows "cache st1 (cacheKey env d) = Some v"
proof (cases "loadDefaultModels env req")
  case (Inl e)
  with miss run show ?thesis by (simp add: loadModels_def Let_def)
next
  case (Inr dm)
  obtain r calls where lc:
    "loadConfigModels env req d (fetchLog (st\<lparr>defaultCalls := Suc (defaultCalls st)\<rparr>)) = (r, calls)"
    by (cases "loadConfigModels env req d (fetchLog (st\<lparr>defaultCalls := Suc (defaultCalls st)\<rparr>))")
  show ?thesis
  proof (cases r)
    case (Inl e)
    with miss run Inr lc show ?thesis by (simp add: loadModels_def Let_def)
  next
    case (Inr customResult)
    note cr = this
    show ?thesis
    proof (cases customResult)
      case (PlainConfig m)
      with miss run \<open>loadDefaultModels env req = Inr dm\<close> lc cr show ?thesis
        by (cases d) (auto simp: loadModels_def Let_def)
    next
      case (DetailedConfig m det)
      with miss run \<open>loadDefaultModels env req = Inr dm\<close> lc cr show ?thesis
        by (cases d) (auto simp: loadModels_def Let_def)
    qed
  qed
qed

lemma cacheKey_distinct: "cacheKey env True \<noteq> cacheKey env False"
  by (simp add: cacheKey_def)

lemma loadModels_cache:
  "cache (snd (loadModels env req d st)) = cache st \<or>
   (\<exists>v. cache (snd (loadModels env req d st)) = (cache st)(cacheKey env d \<mapsto> v) \<and>
        cache st (cacheKey env d) = None)"
proof (cases "cache st (cacheKey env d)")
  case (Some v)
  then show ?thesis by (simp add: loadModels_def)
next
  case None
  note miss = this
  show ?thesis
  proof (cases "loadDefaultModels env req")
    case (Inl e)
    with miss show ?thesis by (simp add: loadModels_def Let_def)
  next
    case (Inr dm)
    obtain r calls where lc:
      "loadConfigModels env req d (fetchLog (st\<lparr>defaultCalls := Suc (defaultCalls st)\<rparr>)) = (r, calls)"
      by (cases "loadConfigModels env req d (fetchLog (st\<lparr>defaultCalls := Suc (defaultCalls st)\<rparr>))")
    show ?thesis
    proof (cases r)
      case (Inl e)
      with miss Inr lc show ?thesis by (simp add: loadModels_def Let_def)
    next
      case (Inr customResult)
      note cr = this
      show ?thesis
      proof (cases customResult)
        case (PlainConfig m)
        with miss \<open>loadDefaultModels env req = Inr dm\<close> lc cr show ?thesis
          by (cases d) (auto simp: loadModels_def Let_def)
      next
        case (DetailedConfig m det)
        with miss \<open>loadDefaultModels env req = Inr dm\<close> lc cr show ?thesis
          by (cases d) (auto simp: loadModels_def Let_def)
      qed
    qed
  qed
qed

lemma loadModels_keeps_slot:
  assumes "cache st k = Some v"
  shows "cache (snd (loadModels env req d st)) k = Some v"
proof -
  from loadModels_cache [of env req d st]
  consider "cache (snd (loadModels env req d st)) = cache st"
    | w where "cache (snd (loadModels env req d st)) = (cache st)(cacheKey env d \<mapsto> w)"
        "cache st (cacheKey env d) = None"
    by blast
  then show ?thesis
  proof cases
    case 1
    with assms show ?thesis by simp
  next
    case 2
    with assms have "k \<noteq> cacheKey env d" by auto
    with 2 assms show ?thesis by simp
  qed
qed

text \<open>
  C5. After a call of \<open>loadModels\<close> has missed the cache and returned a value, the slot
  of its verbosity holds that value. No later call of \<open>loadModels\<close>, of either
  verbosity, removes or changes it, and in every state whose slot holds it \<open>loadModels\<close>
  and \<open>getModelsConfig\<close> with the same verbosity return that value and leave the state
  as it is: the call counter of \<open>loadDefaultModels\<close> and the trace of the fetch
  collaborator do not grow.
\<close>

theorem cache_round_trip:
  assumes miss: "cache st (cacheKey env includeDetails) = None"
    and run: "loadModels env req includeDetails st = (Inr v, st1)"
  shows "cache st1 (cacheKey env includeDetails) = Some v \<and>
         (\<forall>req' st2. cache st2 (cacheKey env includeDetails) = Some v \<longrightarrow>
            loadModels env req' includeDetails st2 = (Inr v, st2) \<and>
            getModelsConfig env req' includeDetails st2 = (Inr v, st2) \<and>
            (\<forall>d'. cache (snd (loadModels env req' d' st2)) (cacheKey env includeDetails) = Some v))"
  using loadModels_miss_stores [OF miss run]
  by (simp add: loadModels_hit getModelsConfig_hit loadModels_keeps_slot)

theorem cache_round_trip_witness:
  "(\<exists>v. fst (loadModels oneFetchedEnv (exampleRequest None) False emptyState) = Inr v) \<and>
   loadModels oneFetchedEnv (exampleRequest None) False
       (snd (loadModels oneFetchedEnv (exampleRequest None) False emptyState))
     = loadModels oneFetchedEnv (exampleRequest None) False emptyState \<and>
   defaultCalls (snd (loadModels oneFetchedEnv (exampleRequest None) False emptyState)) = 1 \<and>
   length (fetchLog (snd (loadModels oneFetchedEnv (exampleRequest None) False emptyState))) = 1"
proof -
  let ?run = "loadModels oneFetchedEnv (exampleRequest None) False emptyState"
  have miss: "cache emptyState (cacheKey oneFetchedEnv False) = None"
    by (simp add: emptyState_def)
  have ev: "\<exists>v. fst ?run = Inr v"
    by (simp add: loadModels_def code_defs example_defs oneFetchedEnv_def emptyState_def cacheKey_def)
  then obtain v where v: "?run = (Inr v, snd ?run)" by (auto simp: prod_eq_iff)
  from cache_round_trip [OF miss v]
  have "cache (snd ?run) (cacheKey oneFetchedEnv False) = Some v"
    and again: "loadModels oneFetchedEnv (exampleRequest None) False (snd ?run) = (Inr v, snd ?run)"
    by simp_all
  have counts: "defaultCalls (snd ?run) = 1" "length (fetchLog (snd ?run)) = 1"
    by (simp_all add: loadModels_def code_defs example_defs oneFetchedEnv_def emptyState_def
        cacheKey_def)
  from ev again v counts show ?thesis by simp
qed

subsection \<open>A fetch that raises\<close>






subsection \<open>No custom endpoints\<close>

lemma loadConfigModels_no_array:
  assumes cfg: "getAppConfig env (role (user req)) = Inr cfgopt"
    and na: "case cfgopt of None \<Rightarrow> True | Some c \<Rightarrow> customValue c = NotAnArray"
  shows "loadConfigModels env req d calls =
           (Inr (shape d (case cfgopt of None \<Rightarrow> Map.empty | Some c \<Rightarrow> azureModels env c)
                   Map.empty), calls)"
  using na by (cases cfgopt) (simp_all add: loadConfigModels_def cfg)

text \<open>
  C7 as stated fails: with an Azure OpenAI configuration that lists model names and no
  custom array, the result has an entry \<open>azureOpenAI\<close> that the defaults do not have.
\<close>

theorem no_custom_array_defaults_unchanged_counterexample:
  "loadDefaultModels azureOnlyEnv (exampleRequest None) = Inr [''openAI'' \<mapsto> [MStr ''gpt-4o'']] \<and>
   fst (loadModels azureOnlyEnv (exampleRequest None) False emptyState)
     \<noteq> Inr (PlainConfig [''openAI'' \<mapsto> [MStr ''gpt-4o'']]) \<and>
   resolvedList (fst (loadModels azureOnlyEnv (exampleRequest None) False emptyState))
     ''azureOpenAI'' = Some [MStr ''gpt-4'']"
proof -
  have r: "resolvedList (fst (loadModels azureOnlyEnv (exampleRequest None) False emptyState))
     ''azureOpenAI'' = Some [MStr ''gpt-4'']"
    by (simp add: loadModels_def code_defs example_defs azureOnlyEnv_def emptyState_def cacheKey_def)
  have "fst (loadModels azureOnlyEnv (exampleRequest None) False emptyState)
     \<noteq> Inr (PlainConfig [''openAI'' \<mapsto> [MStr ''gpt-4o'']])"
  proof
    assume "fst (loadModels azureOnlyEnv (exampleRequest None) False emptyState)
      = Inr (PlainConfig [''openAI'' \<mapsto> [MStr ''gpt-4o'']])"
    with r show False by (simp add: resolvedList_def)
  qed
  with r show ?thesis by (simp add: azureOnlyEnv_def example_defs)
qed

text \<open>
  C7 (amended). When the application configuration is absent, or its custom-endpoint
  value is not an array, a call of \<open>loadModels\<close> that misses the cache makes no fetch and
  returns the defaults overlaid with the entries of the Azure OpenAI configuration
  (\<open>azureOpenAI\<close>, \<open>azureAssistants\<close>); it returns the defaults unchanged when that
  configuration contributes no entry. In detailed mode the mapping is the \<open>models\<close>
  field of the result and \<open>modelDetails\<close> is empty.
\<close>

theorem no_custom_array_defaults_and_azure:
  assumes miss: "cache st (cacheKey env includeDetails) = None"
    and dflt: "loadDefaultModels env req = Inr dm"
    and cfg: "getAppConfig env (role (user req)) = Inr cfgopt"
    and na: "case cfgopt of None \<Rightarrow> True | Some c \<Rightarrow> customValue c = NotAnArray"
  shows "fst (loadModels env req includeDetails st) =
           Inr (shape includeDetails
                  (dm ++ (case cfgopt of None \<Rightarrow> Map.empty | Some c \<Rightarrow> azureModels env c))
                  Map.empty) \<and>
         fetchLog (snd (loadModels env req includeDetails st)) = fetchLog st \<and>
         ((case cfgopt of None \<Rightarrow> Map.empty | Some c \<Rightarrow> azureModels env c) = Map.empty \<longrightarrow>
            fst (loadModels env req includeDetails st) = Inr (shape includeDetails dm Map.empty))"
proof -
  let ?az = "case cfgopt of None \<Rightarrow> Map.empty | Some c \<Rightarrow> azureModels env c"
  have lc: "loadConfigModels env req includeDetails calls =
      (Inr (shape includeDetails ?az Map.empty), calls)" for calls
    using cfg na by (rule loadConfigModels_no_array)
  note lc' = lc [of "fetchLog (st\<lparr>defaultCalls := Suc (defaultCalls st)\<rparr>)"]
  have "fst (loadModels env req includeDetails st) = Inr (shape includeDetails (dm ++ ?az) Map.empty)"
    using miss dflt lc' by (cases includeDetails) (simp_all add: loadModels_def Let_def shape_def)
  moreover have "fetchLog (snd (loadModels env req includeDetails st)) = fetchLog st"
    using miss dflt lc' by (cases includeDetails) (simp_all add: loadModels_def Let_def shape_def)
  ultimately show ?thesis by auto
qed

theorem no_custom_array_defaults_and_azure_witness:
  "fst (loadModels noCustomEnv (exampleRequest None) False emptyState)
     = Inr (PlainConfig [''openAI'' \<mapsto> [MStr ''gpt-4o'']]) \<and>
   fetchLog (snd (loadModels noCustomEnv (exampleRequest None) False emptyState)) = []"
  using no_custom_array_defaults_and_azure
    [where env = noCustomEnv and req = "exampleRequest None" and includeDetails = False
       and st = emptyState and dm = "[''openAI'' \<mapsto> [MStr ''gpt-4o'']]"
       and cfgopt = "Some \<lparr> endpoints = Some \<lparr> azureOpenAI = None, custom = NotAnArray \<rparr> \<rparr>"]
  by (simp add: noCustomEnv_def example_defs emptyState_def customValue_def azureModels_def
      shape_def)

subsection \<open>Merged model details\<close>

lemma outcomes_aligned:
  assumes res: "fetchOutcomes env req d es = map Inr results"
  shows "length results = length (fetchKeys env es)"
    and "i < length results \<Longrightarrow>
           fetchOutcome env req d es (fetchKeys env es ! i) = Some (Inr (results ! i))"
proof -
  have all: "\<forall>k\<in>set (fetchKeys env es). fetchOutcome env req d es k \<noteq> None"
    by (simp add: fetchOutcome_None_iff)
  have m: "map (fetchOutcome env req d es) (fetchKeys env es) = map Some (map Inr results)"
    using map_filter_all_Some [OF all] res by (simp add: fetchOutcomes_def)
  show len: "length results = length (fetchKeys env es)"
    using arg_cong [OF m, of length] by simp
  assume i: "i < length results"
  have "map (fetchOutcome env req d es) (fetchKeys env es) ! i = map Some (map Inr results) ! i"
    by (simp add: m)
  with i len show "fetchOutcome env req d es (fetchKeys env es ! i) = Some (Inr (results ! i))"
    by simp
qed

text \<open>
  C8. In detailed mode, when every fetch resolves, the \<open>modelDetails\<close> of the result
  is the accumulation, from the empty mapping, of the \<open>modelDetails\<close> of the fetched
  values taken in the order of the keys, which is the order in which the keys are first
  seen among the endpoints as declared; a later mapping overrides an earlier one. Hence
  a model id has the entry of the last group whose result carries it.
\<close>

theorem model_details_last_write_wins:
  assumes cfg: "getAppConfig env (role (user req)) = Inr (Some appConfig)"
    and arr: "customValue appConfig = CustomArray configured"
    and res: "fetchOutcomes env req True (filter eligible configured) = map Inr results"
  shows "resolvedDetails (fst (loadConfigModels env req True calls))
           = Some (foldl (++) Map.empty (map (fetchedDetails True) results)) \<and>
         fetchKeys env (filter eligible configured)
           = firstSeen (map (uniqueKey env) (filter (needsFetch env) (filter eligible configured))) \<and>
         length results = length (fetchKeys env (filter eligible configured)) \<and>
         (\<forall>i<length results.
            fetchOutcome env req True (filter eligible configured)
              (fetchKeys env (filter eligible configured) ! i) = Some (Inr (results ! i))) \<and>
         (\<forall>j x v. j < length results \<longrightarrow> fetchedDetails True (results ! j) x = Some v \<longrightarrow>
            (\<forall>i. j < i \<and> i < length results \<longrightarrow> fetchedDetails True (results ! i) x = None) \<longrightarrow>
            resolvedDetail (fst (loadConfigModels env req True calls)) x = Some v)"
proof -
  let ?ms = "map (fetchedDetails True) results"
  have det: "resolvedDetails (fst (loadConfigModels env req True calls))
      = Some (foldl (++) Map.empty ?ms)"
    using resolvedDetails_loadConfigModels [OF cfg arr res, of calls]
    by (simp add: mergedDetails_def)
  have last: "resolvedDetail (fst (loadConfigModels env req True calls)) x = Some v"
    if j: "j < length results" and v: "fetchedDetails True (results ! j) x = Some v"
      and later: "\<forall>i. j < i \<and> i < length results \<longrightarrow> fetchedDetails True (results ! i) x = None"
    for j x v
  proof -
    have "foldl (++) Map.empty ?ms x = Some v"
    proof (rule foldl_map_add_last [where j = j])
      show "j < length ?ms" using j by simp
      show "(?ms ! j) x = Some v" using j v by simp
    next
      fix i assume "j < i" "i < length ?ms"
      then show "(?ms ! i) x = None" using later by simp
    qed
    then show ?thesis by (simp add: resolvedDetail_def det)
  qed
  from det outcomes_aligned [OF res] last show ?thesis
    by (simp add: fetchKeys_def)
qed

theorem model_details_last_write_wins_witness:
  "resolvedDetail (fst (loadConfigModels twoProvidersEnv (exampleRequest (Some ''true'')) True []))
     ''shared'' = Some ''from-q'' \<and>
   resolvedDetail (fst (loadConfigModels twoProvidersEnv (exampleRequest (Some ''true'')) True []))
     ''p-only'' = Some ''p''"
proof -
  let ?cfg = "[exampleEndpoint ''P'' ''https://p'' ''K1'' True None,
               exampleEndpoint ''Q'' ''https://q'' ''K2'' True None]"
  let ?rp = "FDetailed (Some [MStr ''shared'', MStr ''p-only''])
               (Some [''shared'' \<mapsto> ''from-p'', ''p-only'' \<mapsto> ''p''])"
  let ?rq = "FDetailed (Some [MStr ''shared'']) (Some [''shared'' \<mapsto> ''from-q''])"
  have res: "fetchOutcomes twoProvidersEnv (exampleRequest (Some ''true'')) True
               (filter eligible ?cfg) = map Inr [?rp, ?rq]"
    by (simp add: twoProvidersEnv_def example_defs notion_defs)
  note T = model_details_last_write_wins
    [where env = twoProvidersEnv and req = "exampleRequest (Some ''true'')"
       and appConfig = "exampleConfig ?cfg" and configured = ?cfg
       and results = "[?rp, ?rq]" and calls = "[]",
     OF _ _ res, THEN conjunct2, THEN conjunct2, THEN conjunct2, THEN conjunct2, rule_format]
  have cfg: "getAppConfig twoProvidersEnv (role (user (exampleRequest (Some ''true''))))
      = Inr (Some (exampleConfig ?cfg))"
    by (simp add: twoProvidersEnv_def example_defs)
  have arr: "customValue (exampleConfig ?cfg) = CustomArray ?cfg"
    by (simp add: example_defs customValue_def)
  have 1: "resolvedDetail (fst (loadConfigModels twoProvidersEnv (exampleRequest (Some ''true'')) True []))
     ''shared'' = Some ''from-q''"
    by (rule T [OF cfg arr, where j = 1]) (auto simp: fetchedDetails_def less_Suc_eq)
  have 2: "resolvedDetail (fst (loadConfigModels twoProvidersEnv (exampleRequest (Some ''true'')) True []))
     ''p-only'' = Some ''p''"
    by (rule T [OF cfg arr, where j = 0]) (auto simp: fetchedDetails_def less_Suc_eq)
  from 1 2 show ?thesis by simp
qed

subsection \<open>Keys and pairs\<close>

lemma uniqueKey_same_pair:
  "extractEnvVariable env (baseURL a) = extractEnvVariable env (baseURL b) \<Longrightarrow>
   extractEnvVariable env (apiKey a) = extractEnvVariable env (apiKey b) \<Longrightarrow>
   uniqueKey env a = uniqueKey env b"
  by (simp add: uniqueKey_def)

lemma fetchKeys_at_most_endpoints:
  "length (fetchKeys env es) \<le> length (filter (needsFetch env) es)"
proof -
  have "length (fetchKeys env es) = length (remdups (rev (map (uniqueKey env) (filter (needsFetch env) es))))"
    by (simp add: fetchKeys_def firstSeen_def)
  also have "\<dots> \<le> length (rev (map (uniqueKey env) (filter (needsFetch env) es)))"
    by (rule length_remdups_leq)
  finally show ?thesis by simp
qed

text \<open>
  C6. Endpoints with the same resolved baseURL and apiKey have the same key, and the keys
  are at most as many as the fetch-requiring endpoints (the two lemmas above). The
  converse fails: the key is the plain concatenation \<open>baseURL__apiKey\<close>, and the two
  endpoints \<open>X\<close> and \<open>Y\<close> differ in address and in credential and have the same key.
  \<open>loadConfigModels\<close> then makes one fetch, with the address and credential of \<open>X\<close>,
  and gives \<open>Y\<close> the list fetched for \<open>X\<close>.
\<close>

theorem uniqueKey_collision:
  "uniqueKey collidingEnv collidingEndpointX = uniqueKey collidingEnv collidingEndpointY \<and>
   extractEnvVariable collidingEnv (baseURL collidingEndpointX)
     \<noteq> extractEnvVariable collidingEnv (baseURL collidingEndpointY) \<and>
   extractEnvVariable collidingEnv (apiKey collidingEndpointX)
     \<noteq> extractEnvVariable collidingEnv (apiKey collidingEndpointY) \<and>
   map (\<lambda>c. (arg_baseURL (call_params c), arg_apiKey (call_params c)))
     (snd (loadConfigModels collidingEnv (exampleRequest None) False []))
     = [(''https://h/a__'', ''k'')] \<and>
   resolvedList (fst (loadConfigModels collidingEnv (exampleRequest None) False [])) ''Y''
     = Some [MStr ''https://h/a__'']"
  by (simp add: code_defs example_defs collidingEnv_def collidingEndpointX_def
      collidingEndpointY_def)

end
